theory Spec2Isabelle
  imports Complex_Main
begin

section \<open>The AMoD fleet simulator: data model\<close>

text \<open>
  The development embeds \<^verbatim>\<open>src/envs/amod_env.py\<close> (class \<^verbatim>\<open>AMoD\<close>).
  Regions are the node identifiers of the road graph, times and travel times are
  Python integers, vehicle counts, flows, prices and rewards are Python numbers
  (idealised as reals: no rounding).
\<close>

type_synonym regionid = nat
type_synonym edge = "regionid \<times> regionid"

datatype error = KeyError | IndexError | AssertionError | AttributeError | UnboundLocalError

definition ebind :: "error + 'a \<Rightarrow> ('a \<Rightarrow> error + 'b) \<Rightarrow> error + 'b" where
  "ebind m f = (case m of Inl e \<Rightarrow> Inl e | Inr x \<Rightarrow> f x)"

text \<open>A \<^verbatim>\<open>for\<close> loop whose body may raise: the first exception ends the loop.\<close>

fun foldE :: "('a \<Rightarrow> 's \<Rightarrow> error + 's) \<Rightarrow> 'a list \<Rightarrow> 's \<Rightarrow> error + 's" where
  "foldE f [] s = Inr s"
| "foldE f (x # xs) s = (case f x s of Inl e \<Rightarrow> Inl e | Inr s' \<Rightarrow> foldE f xs s')"

text \<open>
  Dictionaries. The ledgers of the environment are two-level dictionaries
  \<^verbatim>\<open>d[key][t]\<close>; they are modelled as one partial map on the pair \<open>(key, t)\<close>, so that
  \<^verbatim>\<open>key in d and t in d[key]\<close> is \<open>(key, t) \<in> dom d\<close>.
  \<open>getitem\<close> is a read of a plain \<^verbatim>\<open>dict\<close> (a missing key raises),
  \<open>iadd\<close> is \<^verbatim>\<open>d[key][t] += v\<close> on an inner \<^verbatim>\<open>defaultdict(float)\<close>
  (a missing key counts as 0). The constructor and \<^verbatim>\<open>reset\<close> register such an inner
  table for every pair the step functions index with \<^verbatim>\<open>+=\<close>.
\<close>

definition getitem :: "('k \<rightharpoonup> 'v) \<Rightarrow> 'k \<Rightarrow> error + 'v" where
  "getitem d k = (case d k of None \<Rightarrow> Inl KeyError | Some v \<Rightarrow> Inr v)"

definition getdefault :: "('k \<rightharpoonup> real) \<Rightarrow> 'k \<Rightarrow> real" where
  "getdefault d k = (case d k of None \<Rightarrow> 0 | Some v \<Rightarrow> v)"

definition iadd :: "('k \<rightharpoonup> real) \<Rightarrow> 'k \<Rightarrow> real \<Rightarrow> ('k \<rightharpoonup> real)" where
  "iadd d k v = d(k \<mapsto> getdefault d k + v)"

text \<open>Reading and updating a Python list (or numpy vector) at a non-negative index.\<close>

definition list_get :: "'a list \<Rightarrow> nat \<Rightarrow> error + 'a" where
  "list_get xs k = (if k < length xs then Inr (xs ! k) else Inl IndexError)"

definition list_iadd :: "real list \<Rightarrow> nat \<Rightarrow> real \<Rightarrow> error + real list" where
  "list_iadd xs k v = (if k < length xs then Inr (xs[k := xs ! k + v]) else Inl IndexError)"

subsection \<open>The road graph\<close>

text \<open>
  A \<^verbatim>\<open>networkx.DiGraph\<close>: its nodes and edges in iteration order, the node attribute
  \<^verbatim>\<open>accInit\<close> and the edge attribute \<^verbatim>\<open>time\<close>.
\<close>

record graph =
  nodes :: "regionid list"
  gedges :: "edge list"
  accInit :: "regionid \<rightharpoonup> real"
  etime :: "edge \<rightharpoonup> int"

definition out_edges :: "graph \<Rightarrow> regionid \<Rightarrow> edge list" where
  "out_edges g i = filter (\<lambda>e. fst e = i) (gedges g)"

definition neighbors :: "graph \<Rightarrow> regionid \<Rightarrow> regionid list" where
  "neighbors g n = map snd (out_edges g n)"

text \<open>\<^verbatim>\<open>nx.complete_graph(N).to_directed()\<close>, as \<^verbatim>\<open>Scenario\<close> builds it: no self-loops.\<close>

definition complete_digraph :: "nat \<Rightarrow> real \<Rightarrow> graph" where
  "complete_digraph N ninit =
     \<lparr>nodes = [0..<N],
      gedges = concat (map (\<lambda>i. map (\<lambda>j. (i, j)) (filter (\<lambda>j. j \<noteq> i) [0..<N])) [0..<N]),
      accInit = (\<lambda>n. if n < N then Some ninit else None),
      etime = Map.empty\<rparr>"

subsection \<open>Passengers\<close>

text \<open>
  Modelled from the spec: the class \<^verbatim>\<open>Passenger\<close> of \<^verbatim>\<open>src/envs/structures.py\<close> is not
  among the sources. The record has the fields the specification lists; \<open>enter\<close>,
  \<open>pax_match\<close> (the method \<^verbatim>\<open>match\<close>) and \<open>unmatched_update\<close> follow its lifecycle:
  re-entering and double matching abort, an unmatched step increments the wait counter
  and the passenger leaves once the counter has reached \<open>MAX_WAIT_STEP\<close>. The outcome
  of the acceptance draw of \<^verbatim>\<open>match\<close> is an input.
\<close>

record passenger =
  origin :: regionid
  destination :: regionid
  request_time :: int
  pax_price :: real
  wait_time :: int
  enter_flag :: bool
  matched_flag :: bool

definition MAX_WAIT_STEP :: int where
  "MAX_WAIT_STEP = 12"

definition enter :: "passenger \<Rightarrow> error + (passenger \<times> bool)" where
  "enter p = (if enter_flag p then Inl AssertionError else Inr (p\<lparr>enter_flag := True\<rparr>, True))"

definition pax_match :: "bool \<Rightarrow> passenger \<Rightarrow> error + (passenger \<times> bool)" where
  "pax_match draw p =
     (if matched_flag p then Inl AssertionError
      else if draw then Inr (p\<lparr>matched_flag := True\<rparr>, True)
      else Inr (p, False))"

definition unmatched_update :: "passenger \<Rightarrow> passenger \<times> bool" where
  "unmatched_update p =
     (let p' = p\<lparr>wait_time := wait_time p + 1\<rparr> in (p', MAX_WAIT_STEP \<le> wait_time p'))"

text \<open>
  What the environment calls and does not define: \<^verbatim>\<open>demand_update\<close> and
  \<^verbatim>\<open>generate_passenger\<close> (other modules of the repository, not among the sources),
  the fixed-seed \<^verbatim>\<open>random.Random(42).shuffle\<close>, the order in which \<^verbatim>\<open>list(set(...))\<close>
  lists the edges, and the acceptance draws: \<open>accept n i\<close> is the outcome of the draw for
  the passenger at position \<open>i\<close> of the queue of region \<open>n\<close> in the current call.
\<close>

record externals =
  demand_update :: "real \<Rightarrow> real \<Rightarrow> real \<Rightarrow> real \<Rightarrow> real"
  generate_passenger :: "regionid \<times> regionid \<times> int \<times> real \<times> real \<Rightarrow> int \<Rightarrow> passenger list \<times> int"
  shuffle :: "passenger list \<Rightarrow> passenger list"
  list_of_set :: "edge list \<Rightarrow> edge list"
  accept :: "regionid \<Rightarrow> nat \<Rightarrow> bool"

subsection \<open>The environment\<close>

record info_t =
  revenue :: real
  served_demand :: real
  unserved_demand :: real
  rebalancing_cost :: real
  operating_cost :: real
  served_waiting :: real

text \<open>
  The attributes of an \<^verbatim>\<open>AMoD\<close> object, except \<^verbatim>\<open>self.G\<close> and \<^verbatim>\<open>self.scenario\<close>:
  the graph is an object shared with the caller, so the step functions take it as an
  argument and return it when they write to it.
\<close>

record amod =
  mode :: int
  demandTime :: "edge \<Rightarrow> int \<rightharpoonup> int"
  rebTime :: "edge \<Rightarrow> int \<rightharpoonup> int"
  time :: int
  tf :: int
  tstep :: real
  passenger :: "regionid \<times> int \<Rightarrow> passenger list"
  queue :: "regionid \<Rightarrow> passenger list"
  demand :: "edge \<times> int \<rightharpoonup> real"
  price :: "edge \<times> int \<rightharpoonup> real"
  depDemand :: "regionid \<times> int \<rightharpoonup> real"
  arrDemand :: "regionid \<times> int \<rightharpoonup> real"
  regionDemand :: "regionid \<times> int \<rightharpoonup> real"
  region :: "regionid list"
  arrivals :: int
  acc :: "regionid \<times> int \<rightharpoonup> real"
  dacc :: "regionid \<times> int \<rightharpoonup> real"
  rebFlow :: "edge \<times> int \<rightharpoonup> real"
  paxFlow :: "edge \<times> int \<rightharpoonup> real"
  edges :: "edge list"
  nregion :: nat
  beta :: real
  servedDemand :: "edge \<times> int \<rightharpoonup> real"
  unservedDemand :: "edge \<times> int \<rightharpoonup> real"
  info :: info_t
  reward :: real
  ext_reward :: "real list"
  rebAction :: "real list"
  paxAction :: "real list"

section \<open>Rebalancing: \<^verbatim>\<open>reb_step\<close>\<close>

text \<open>The body of the first loop of \<^verbatim>\<open>reb_step\<close>, for the edge at index \<open>k\<close>.\<close>

definition reb_edge :: "graph \<Rightarrow> nat \<Rightarrow> amod \<Rightarrow> error + amod" where
  "reb_edge g k s =
     (let t = time s; i = fst (edges s ! k); j = snd (edges s ! k) in
      if (i, j) \<notin> set (gedges g) then Inr s
      else
        ebind (getitem (acc s) (i, t + 1)) (\<lambda>a.
        ebind (list_get (rebAction s) k) (\<lambda>r.
        ebind (getitem (rebTime s (i, j)) t) (\<lambda>tt.
        ebind (list_iadd (ext_reward s) i (- (of_int tt * beta s * min a r))) (\<lambda>ext.
          Inr (s\<lparr>rebAction := (rebAction s)[k := min a r],
                 rebFlow := (rebFlow s)(((i, j), t + tt) \<mapsto> min a r),
                 acc := (acc s)((i, t + 1) \<mapsto> a - min a r),
                 dacc := iadd (dacc s) (j, t + tt) (min a r),
                 info := (info s)\<lparr>rebalancing_cost := rebalancing_cost (info s) + of_int tt * beta s * min a r,
                                  operating_cost := operating_cost (info s) + of_int tt * beta s * min a r\<rparr>,
                 reward := reward s - of_int tt * beta s * min a r,
                 ext_reward := ext\<rparr>))))))"

text \<open>
  The body of the second loop: the entries of the two flow ledgers recorded at the
  current time \<open>t\<close> are added to the inventory of the destination at \<open>t + 1\<close>.
\<close>

definition arrive_rebFlow :: "nat \<Rightarrow> amod \<Rightarrow> error + amod" where
  "arrive_rebFlow k s =
     (let t = time s; i = fst (edges s ! k); j = snd (edges s ! k) in
      case rebFlow s ((i, j), t) of
        None \<Rightarrow> Inr s
      | Some v \<Rightarrow> ebind (getitem (acc s) (j, t + 1)) (\<lambda>a. Inr (s\<lparr>acc := (acc s)((j, t + 1) \<mapsto> a + v)\<rparr>)))"

definition arrive_paxFlow :: "nat \<Rightarrow> amod \<Rightarrow> error + amod" where
  "arrive_paxFlow k s =
     (let t = time s; i = fst (edges s ! k); j = snd (edges s ! k) in
      case paxFlow s ((i, j), t) of
        None \<Rightarrow> Inr s
      | Some v \<Rightarrow> ebind (getitem (acc s) (j, t + 1)) (\<lambda>a. Inr (s\<lparr>acc := (acc s)((j, t + 1) \<mapsto> a + v)\<rparr>)))"

definition arrive_edge :: "nat \<Rightarrow> amod \<Rightarrow> error + amod" where
  "arrive_edge k s = ebind (arrive_rebFlow k s) (arrive_paxFlow k)"

text \<open>The last loop: every edge of the graph gets the travel time of the new current time.\<close>

definition refresh_edge :: "amod \<Rightarrow> edge \<Rightarrow> graph \<Rightarrow> error + graph" where
  "refresh_edge s e g =
     ebind (getitem (rebTime s e) (time s)) (\<lambda>tt. Inr (g\<lparr>etime := (etime g)(e \<mapsto> tt)\<rparr>))"

text \<open>
  \<^verbatim>\<open>reb_step(rebAction)\<close> returns the graph, the environment (which holds the observation,
  \<^verbatim>\<open>info\<close> and \<^verbatim>\<open>ext_reward\<close>), the reward and \<^verbatim>\<open>done\<close>.
\<close>

definition reb_step :: "graph \<Rightarrow> amod \<Rightarrow> real list \<Rightarrow> error + (graph \<times> amod \<times> real \<times> bool)" where
  "reb_step g s action =
     (let t = time s;
          s0 = s\<lparr>reward := 0, ext_reward := replicate (nregion s) 0, rebAction := action\<rparr> in
      ebind (foldE (reb_edge g) [0..<length (edges s0)] s0) (\<lambda>s1.
      ebind (foldE arrive_edge [0..<length (edges s1)] s1) (\<lambda>s2.
      let s3 = s2\<lparr>time := time s2 + 1\<rparr> in
      ebind (foldE (refresh_edge s3) (gedges g) g) (\<lambda>g'.
        Inr (g', s3, reward s3, tf s3 = t + 1)))))"

section \<open>Matching: \<^verbatim>\<open>match_step_simple\<close>\<close>

text \<open>
  The loop over the outgoing edges of region \<open>n\<close>: the passengers requested at \<open>t\<close> for
  destination \<open>j\<close> are appended to the buffer \<^verbatim>\<open>passenger[n][t]\<close>, and the buffer is
  shuffled after every extension. \<open>pr\<close> is the optional argument \<^verbatim>\<open>price\<close>.
\<close>

definition priced :: "externals \<Rightarrow> real list option \<Rightarrow> amod \<Rightarrow> regionid \<Rightarrow> regionid \<Rightarrow> real \<Rightarrow> real
    \<Rightarrow> error + (real \<times> real)" where
  "priced X pr s n j d p =
     (case pr of
        None \<Rightarrow> Inr (d, p)
      | Some ps \<Rightarrow>
          if sum_list ps \<noteq> 0 then
            ebind (getitem (demandTime s (n, j)) (time s)) (\<lambda>tt.
            ebind (list_get ps n) (\<lambda>pn.
              let p' = 10 + max (of_int tt * tstep s - 6) 0 * pn
              in Inr (max (externals.demand_update X d p' (2 * p') p) 0, p')))
          else Inr (d, p))"

definition materialise :: "externals \<Rightarrow> real list option \<Rightarrow> regionid \<Rightarrow> regionid \<Rightarrow> amod \<Rightarrow> error + amod" where
  "materialise X pr n j s =
     (let t = time s in
      ebind (getitem (demand s) ((n, j), t)) (\<lambda>d.
      ebind (getitem (price s) ((n, j), t)) (\<lambda>p.
      ebind (priced X pr s n j d p) (\<lambda>dp.
        let gen = generate_passenger X (n, j, t, fst dp, snd dp) (arrivals s)
        in Inr (s\<lparr>arrivals := snd gen,
                  passenger := (passenger s)((n, t) := shuffle X (passenger s (n, t) @ fst gen))\<rparr>)))))"

text \<open>
  \<^verbatim>\<open>[pax for pax in self.passenger[n][t] if pax.enter()]\<close>: the passengers of the buffer
  after the calls, and those for which \<^verbatim>\<open>enter\<close> returned true.
\<close>

fun enter_all :: "passenger list \<Rightarrow> error + (passenger list \<times> passenger list)" where
  "enter_all [] = Inr ([], [])"
| "enter_all (p # ps) =
     ebind (enter p) (\<lambda>r.
     ebind (enter_all ps) (\<lambda>rs.
       Inr (fst r # fst rs, if snd r then fst r # snd rs else snd rs)))"

text \<open>A passenger that stays unmatched in this step: both \<^verbatim>\<open>else\<close> branches of the loop.\<close>

definition unmatched_pax :: "passenger \<Rightarrow> amod \<Rightarrow> amod \<times> passenger \<times> bool" where
  "unmatched_pax pax s =
     (let u = unmatched_update pax; pax' = fst u in
      if snd u then
        (s\<lparr>unservedDemand := iadd (unservedDemand s) ((origin pax', destination pax'), time s) 1,
           info := (info s)\<lparr>unserved_demand := unserved_demand (info s) + 1\<rparr>\<rparr>, pax', True)
      else (s, pax', False))"

text \<open>
  The body of the loop over the queue, for the passenger at position \<open>i\<close>: the
  environment and \<^verbatim>\<open>accCurrent\<close> go in and out; the result also holds the passenger
  as the calls left it and whether \<open>i\<close> was appended to \<^verbatim>\<open>matched_leave_index\<close>.
\<close>

definition match_pax :: "externals \<Rightarrow> regionid \<Rightarrow> nat \<Rightarrow> passenger \<Rightarrow> amod \<times> real
    \<Rightarrow> error + ((amod \<times> real) \<times> passenger \<times> bool)" where
  "match_pax X n i pax sa =
     (let s = fst sa; accCurrent = snd sa; t = time s in
      if accCurrent \<noteq> 0 then
        ebind (pax_match (accept X n i) pax) (\<lambda>m.
          let pax' = fst m; od = (origin pax', destination pax') in
          if snd m then
            ebind (getitem (demandTime s od) t) (\<lambda>tt.
            ebind (list_iadd (ext_reward s) n (max 0 (of_int tt * beta s))) (\<lambda>ext.
              Inr ((s\<lparr>paxFlow := iadd (paxFlow s) (od, t + tt) 1,
                       dacc := iadd (dacc s) (destination pax', t + tt) 1,
                       servedDemand := iadd (servedDemand s) (od, t) 1,
                       reward := reward s + (pax_price pax' - of_int tt * beta s),
                       ext_reward := ext,
                       info := (info s)\<lparr>revenue := revenue (info s) + pax_price pax',
                                        served_demand := served_demand (info s) + 1,
                                        operating_cost := operating_cost (info s) + of_int tt * beta s,
                                        served_waiting := served_waiting (info s) + of_int (wait_time pax')\<rparr>\<rparr>,
                    accCurrent - 1), pax', True)))
          else
            (let u = unmatched_pax pax' s in Inr ((fst u, accCurrent), snd u)))
      else
        (let u = unmatched_pax pax s in Inr ((fst u, accCurrent), snd u)))"

fun match_queue :: "externals \<Rightarrow> regionid \<Rightarrow> nat \<Rightarrow> passenger list \<Rightarrow> amod \<times> real
    \<Rightarrow> error + ((amod \<times> real) \<times> (passenger \<times> bool) list)" where
  "match_queue X n i [] sa = Inr (sa, [])"
| "match_queue X n i (pax # rest) sa =
     ebind (match_pax X n i pax sa) (\<lambda>r.
     ebind (match_queue X n (Suc i) rest (fst r)) (\<lambda>rs.
       Inr (fst rs, snd r # snd rs)))"

text \<open>The body of the loop over the regions.\<close>

definition match_region :: "externals \<Rightarrow> graph \<Rightarrow> real list option \<Rightarrow> regionid \<Rightarrow> amod \<Rightarrow> error + amod" where
  "match_region X g pr n s =
     (let t = time s in
      ebind (getitem (acc s) (n, t)) (\<lambda>accCurrent.
      ebind (foldE (materialise X pr n) (neighbors g n) s) (\<lambda>s1.
      ebind (enter_all (passenger s1 (n, t))) (\<lambda>en.
        let queueCurrent = queue s1 n @ snd en;
            s2 = s1\<lparr>passenger := (passenger s1)((n, t) := fst en),
                    queue := (queue s1)(n := queueCurrent)\<rparr>
        in
        ebind (match_queue X n 0 queueCurrent (s2, accCurrent)) (\<lambda>r.
          let s3 = fst (fst r) in
          Inr (s3\<lparr>queue := (queue s3)(n := map fst (filter (\<lambda>x. \<not> snd x) (snd r))),
                  acc := (acc s3)((n, t + 1) \<mapsto> snd (fst r))\<rparr>))))))"

text \<open>
  \<^verbatim>\<open>match_step_simple(price)\<close> returns the environment, the reward and \<^verbatim>\<open>done\<close>; the
  observation, \<^verbatim>\<open>info\<close> and \<^verbatim>\<open>ext_reward\<close> are read from the environment. For a mode
  other than 0, 1 and 2 the variable \<^verbatim>\<open>done\<close> is unbound when it is read.
\<close>

definition match_step_simple :: "externals \<Rightarrow> graph \<Rightarrow> amod \<Rightarrow> real list option
    \<Rightarrow> error + (amod \<times> real \<times> bool)" where
  "match_step_simple X g s pr =
     (let t = time s;
          s0 = s\<lparr>reward := 0, ext_reward := replicate (nregion s) 0\<rparr> in
      ebind (foldE (match_region X g pr) (region s0) s0) (\<lambda>s1.
        if mode s1 = 0 \<or> mode s1 = 2 then Inr (s1, max 0 (reward s1), False)
        else if mode s1 = 1 then Inr (s1, max 0 (reward s1), tf s1 = t + 1)
        else Inl UnboundLocalError))"

section \<open>Serving a given passenger flow: \<^verbatim>\<open>pax_step\<close>\<close>

text \<open>
  The caller gives the flow \<^verbatim>\<open>paxAction\<close>: when the argument is absent the source asks
  an external solver for it, and the flow it returns is this argument.
\<close>

definition pax_copy :: "regionid \<Rightarrow> amod \<Rightarrow> error + amod" where
  "pax_copy i s =
     ebind (getitem (acc s) (i, time s)) (\<lambda>a. Inr (s\<lparr>acc := (acc s)((i, time s + 1) \<mapsto> a)\<rparr>))"

definition pax_edge :: "nat \<Rightarrow> amod \<Rightarrow> error + amod" where
  "pax_edge k s =
     (let t = time s; i = fst (edges s ! k); j = snd (edges s ! k) in
      if demand s ((i, j), t) = None then Inr s
      else
        ebind (list_get (paxAction s) k) (\<lambda>r0.
          if r0 < 1 / 1000 then Inr s
          else
            ebind (getitem (acc s) (i, t + 1)) (\<lambda>a.
              let f = min a r0 in
              if \<not> f < a + 1 / 1000 then Inl AssertionError
              else
                ebind (getitem (demandTime s (i, j)) t) (\<lambda>tt.
                ebind (getitem (price s) ((i, j), t)) (\<lambda>p.
                ebind (list_iadd (ext_reward s) i (max 0 (f * (p - of_int tt * beta s)))) (\<lambda>ext.
                  Inr (s\<lparr>paxAction := (paxAction s)[k := f],
                         servedDemand := (servedDemand s)(((i, j), t) \<mapsto> f),
                         paxFlow := (paxFlow s)(((i, j), t + tt) \<mapsto> f),
                         acc := (acc s)((i, t + 1) \<mapsto> a - f),
                         dacc := iadd (dacc s) (j, t + tt) f,
                         reward := reward s + f * (p - of_int tt * beta s),
                         ext_reward := ext,
                         info := (info s)\<lparr>operating_cost := operating_cost (info s) + of_int tt * beta s * f,
                                          served_demand := served_demand (info s) + f,
                                          revenue := revenue (info s) + f * p\<rparr>\<rparr>)))))))"

definition pax_step :: "amod \<Rightarrow> real list \<Rightarrow> error + (amod \<times> real \<times> bool)" where
  "pax_step s action =
     (let s0 = s\<lparr>reward := 0, ext_reward := replicate (nregion s) 0\<rparr> in
      ebind (foldE pax_copy (region s0) s0) (\<lambda>s1.
      let s2 = s1\<lparr>info := (info s1)\<lparr>served_demand := 0, operating_cost := 0, revenue := 0,
                                      rebalancing_cost := 0\<rparr>,
                  paxAction := action\<rparr> in
      ebind (foldE pax_edge [0..<length (edges s2)] s2) (\<lambda>s3.
        Inr (s3, max 0 (reward s3), False))))"

section \<open>Episodes: \<^verbatim>\<open>reset\<close> and the constructor\<close>

type_synonym trip = "regionid \<times> regionid \<times> int \<times> real \<times> real"

text \<open>The list of rebalancing edges: a self-loop and the outgoing edges of every node.\<close>

definition edge_list :: "externals \<Rightarrow> graph \<Rightarrow> edge list" where
  "edge_list X g = list_of_set X (concat (map (\<lambda>i. (i, i) # out_edges g i) (nodes g)))"

definition trip_pair :: "trip \<Rightarrow> edge" where
  "trip_pair a = (fst a, fst (snd a))"

text \<open>The loop of \<^verbatim>\<open>reset\<close> over the trip attributes \<open>(i, j, t, d, p)\<close>.\<close>

definition reset_trip :: "trip \<Rightarrow> amod \<Rightarrow> amod" where
  "reset_trip a s =
     (case a of (i, j, t, d, p) \<Rightarrow>
        s\<lparr>demand := (demand s)(((i, j), t) \<mapsto> d),
          price := (price s)(((i, j), t) \<mapsto> p),
          regionDemand := (case regionDemand s (i, t) of
                             None \<Rightarrow> (regionDemand s)((i, t) \<mapsto> 0)
                           | Some v \<Rightarrow> (regionDemand s)((i, t) \<mapsto> v + d))\<rparr>)"

definition seed_acc :: "graph \<Rightarrow> regionid \<Rightarrow> amod \<Rightarrow> error + amod" where
  "seed_acc g n s = ebind (getitem (accInit g) n) (\<lambda>a. Inr (s\<lparr>acc := (acc s)((n, 0) \<mapsto> a)\<rparr>))"

text \<open>
  \<^verbatim>\<open>reset()\<close>. The argument \<open>trips\<close> is what \<^verbatim>\<open>self.scenario.get_random_demand(reset=True)\<close>
  returns: the freshly sampled demand. The served and unserved ledgers get a new inner
  table for the pairs of the new demand. The result holds the observation.
\<close>

definition reset :: "externals \<Rightarrow> graph \<Rightarrow> amod \<Rightarrow> trip list \<Rightarrow> error + amod" where
  "reset X g s trips =
     (let s0 = s\<lparr>acc := Map.empty, dacc := Map.empty, rebFlow := Map.empty, paxFlow := Map.empty,
                 passenger := (\<lambda>_. []), queue := (\<lambda>_. []),
                 edges := edge_list X g,
                 demand := Map.empty, price := Map.empty, arrivals := 0,
                 regionDemand := Map.empty\<rparr>;
          s1 = fold reset_trip trips s0;
          s2 = s1\<lparr>time := 0\<rparr> in
      ebind (foldE (seed_acc g) (nodes g) s2) (\<lambda>s3.
        Inr (s3\<lparr>servedDemand := (\<lambda>k. if fst k \<in> set (map trip_pair trips) then None
                                        else servedDemand s3 k),
                unservedDemand := (\<lambda>k. if fst k \<in> set (map trip_pair trips) then None
                                          else unservedDemand s3 k),
                reward := 0\<rparr>)))"

subsection \<open>The constructor and the caller's scenario\<close>

text \<open>
  The graph of a scenario is a mutable object: the store maps addresses to graphs.
  A scenario holds the address of its graph; \<^verbatim>\<open>tstep\<close> is an attribute only scenarios
  read from a JSON file have. \<open>deepcopy\<close> copies the graph to a new address.
\<close>

type_synonym addr = nat

record store =
  objs :: "addr \<rightharpoonup> graph"
  next_addr :: addr

record scenario =
  sc_G :: addr
  sc_demandTime :: "edge \<Rightarrow> int \<rightharpoonup> int"
  sc_rebTime :: "edge \<Rightarrow> int \<rightharpoonup> int"
  sc_tf :: int
  sc_tstep :: "real option"
  sc_tripAttr :: "trip list"

record amod_obj =
  self_G :: addr
  self_scenario :: scenario
  self_env :: amod

definition deepcopy :: "store \<Rightarrow> scenario \<Rightarrow> store \<times> scenario" where
  "deepcopy st sc =
     (st\<lparr>objs := (objs st)(next_addr st := objs st (sc_G sc)), next_addr := Suc (next_addr st)\<rparr>,
      sc\<lparr>sc_G := next_addr st\<rparr>)"

text \<open>The loop of the constructor over \<^verbatim>\<open>scenario.tripAttr\<close>.\<close>

definition init_trip :: "trip \<Rightarrow> amod \<Rightarrow> error + amod" where
  "init_trip a s =
     (case a of (i, j, t, d, p) \<Rightarrow>
        if i \<notin> set (region s) then Inl KeyError
        else
          ebind (getitem (demandTime s (i, j)) t) (\<lambda>tt.
            Inr (s\<lparr>demand := (demand s)(((i, j), t) \<mapsto> d),
                   price := (price s)(((i, j), t) \<mapsto> p),
                   depDemand := iadd (depDemand s) (i, t) d,
                   arrDemand := iadd (arrDemand s) (i, t + tt) d\<rparr>)))"

definition info0 :: info_t where
  "info0 = \<lparr>revenue = 0, served_demand = 0, unserved_demand = 0, rebalancing_cost = 0,
            operating_cost = 0, served_waiting = 0\<rparr>"

text \<open>
  \<^verbatim>\<open>AMoD.__init__(scenario, mode, beta)\<close>: \<^verbatim>\<open>self.scenario\<close> is the deep copy, and
  \<^verbatim>\<open>self.G = scenario.G\<close> is the graph of the argument. The loop that sets the edge
  attribute \<^verbatim>\<open>time\<close> writes to \<^verbatim>\<open>self.G\<close>.
\<close>

definition AMoD_init :: "externals \<Rightarrow> store \<Rightarrow> scenario \<Rightarrow> int \<Rightarrow> real \<Rightarrow> error + (store \<times> amod_obj)" where
  "AMoD_init X st sc md b =
     (let st1 = fst (deepcopy st sc); copy = snd (deepcopy st sc) in
      ebind (getitem (objs st1) (sc_G sc)) (\<lambda>g.
      ebind (case sc_tstep sc of None \<Rightarrow> Inl AttributeError | Some ts \<Rightarrow> Inr ts) (\<lambda>ts.
        let s0 = \<lparr>mode = md, demandTime = sc_demandTime copy, rebTime = sc_rebTime copy, time = 0,
                  tf = sc_tf sc, tstep = ts, passenger = (\<lambda>_. []), queue = (\<lambda>_. []),
                  demand = Map.empty, price = Map.empty, depDemand = Map.empty,
                  arrDemand = Map.empty, regionDemand = Map.empty, region = nodes g,
                  arrivals = 0, acc = Map.empty, dacc = Map.empty, rebFlow = Map.empty,
                  paxFlow = Map.empty, edges = [], nregion = 0, beta = 0,
                  servedDemand = Map.empty, unservedDemand = Map.empty, info = info0,
                  reward = 0, ext_reward = [], rebAction = [], paxAction = []\<rparr> in
        ebind (foldE init_trip (sc_tripAttr sc) s0) (\<lambda>s1.
          let s2 = s1\<lparr>nregion := length (nodes g), edges := edge_list X g\<rparr> in
          ebind (foldE (refresh_edge s2) (gedges g) g) (\<lambda>g'.
          ebind (foldE (seed_acc g') (region s2) s2) (\<lambda>s3.
            Inr (st1\<lparr>objs := (objs st1)(sc_G sc \<mapsto> g')\<rparr>,
                 \<lparr>self_G = sc_G sc, self_scenario = copy, self_env = s3\<lparr>beta := b * ts\<rparr>\<rparr>)))))))"

text \<open>The methods of an object in the store: the graph is read from and written to \<^verbatim>\<open>self.G\<close>.\<close>

definition obj_reb_step :: "store \<Rightarrow> amod_obj \<Rightarrow> real list \<Rightarrow> error + (store \<times> amod_obj \<times> real \<times> bool)" where
  "obj_reb_step st ob action =
     ebind (getitem (objs st) (self_G ob)) (\<lambda>g.
     ebind (reb_step g (self_env ob) action) (\<lambda>r.
       Inr (st\<lparr>objs := (objs st)(self_G ob \<mapsto> fst r)\<rparr>,
            ob\<lparr>self_env := fst (snd r)\<rparr>, fst (snd (snd r)), snd (snd (snd r)))))"

section \<open>Concrete scenarios\<close>

text \<open>
  Modelled from the spec: \<^verbatim>\<open>generate_passenger\<close> of \<^verbatim>\<open>src/envs/structures.py\<close> is not
  among the sources. A request of volume \<open>d\<close> from \<open>og\<close> to \<open>ds\<close> at time \<open>t\<close> and price
  \<open>p\<close> creates \<open>d\<close> passengers with wait time 0 that have neither entered nor been
  matched, and the counter of arrivals grows by \<open>d\<close>.
\<close>

definition new_passengers :: "regionid \<times> regionid \<times> int \<times> real \<times> real \<Rightarrow> int \<Rightarrow> passenger list \<times> int" where
  "new_passengers a n =
     (case a of (og, ds, t, d, p) \<Rightarrow>
        (replicate (nat \<lfloor>d\<rfloor>)
           \<lparr>origin = og, destination = ds, request_time = t, pax_price = p, wait_time = 0,
            enter_flag = False, matched_flag = False\<rparr>,
         n + \<lfloor>d\<rfloor>))"

text \<open>
  What \<^verbatim>\<open>random.Random(42).shuffle\<close> does to a list of at most three elements in
  CPython: it swaps the first two. The scenarios below have no longer buffer.
\<close>

fun shuffle42 :: "'a list \<Rightarrow> 'a list" where
  "shuffle42 [a, b] = [b, a]"
| "shuffle42 [a, b, c] = [b, a, c]"
| "shuffle42 xs = xs"

text \<open>
  The scenarios call \<^verbatim>\<open>match_step_simple\<close> without a price, so \<^verbatim>\<open>demand_update\<close> is
  never called; every acceptance draw succeeds.
\<close>

definition ex_X :: externals where
  "ex_X = \<lparr>externals.demand_update = (\<lambda>d p q r. d), generate_passenger = new_passengers,
           shuffle = shuffle42, list_of_set = remdups, accept = (\<lambda>n i. True)\<rparr>"

text \<open>Two regions, five vehicles each: the graph of \<^verbatim>\<open>Scenario(N1=2, N2=1, ninit=5)\<close>.\<close>

definition grid2 :: graph where
  "grid2 = \<lparr>nodes = [0, 1], gedges = [(0, 1), (1, 0)],
            accInit = (\<lambda>n. if n < 2 then Some 5 else None), etime = Map.empty\<rparr>"

text \<open>
  An environment on \<open>grid2\<close> at the start of an episode: unit travel times, no demand
  up to time 20, operating cost 0.2 per step.
\<close>

definition ex_s :: amod where
  "ex_s = \<lparr>mode = 0, demandTime = (\<lambda>e t. Some 1), rebTime = (\<lambda>e t. Some 1), time = 0, tf = 3,
           tstep = 1, passenger = (\<lambda>_. []), queue = (\<lambda>_. []),
           demand = (\<lambda>k. if fst k \<in> set [(0, 0), (0, 1), (1, 0), (1, 1)] \<and> 0 \<le> snd k \<and> snd k < 20
                          then Some 0 else None),
           price = (\<lambda>k. if fst k \<in> set [(0, 0), (0, 1), (1, 0), (1, 1)] \<and> 0 \<le> snd k \<and> snd k < 20
                         then Some 10 else None),
           depDemand = Map.empty, arrDemand = Map.empty, regionDemand = Map.empty,
           region = [0, 1], arrivals = 0,
           acc = [(0, 0) \<mapsto> 5, (1, 0) \<mapsto> 5], dacc = Map.empty,
           rebFlow = Map.empty, paxFlow = Map.empty,
           edges = [(0, 0), (0, 1), (1, 0), (1, 1)], nregion = 2, beta = 1 / 5,
           servedDemand = Map.empty, unservedDemand = Map.empty, info = info0,
           reward = 0, ext_reward = [], rebAction = [], paxAction = []\<rparr>"

text \<open>The same environment after a matching step without passengers: all vehicles stay.\<close>

definition ex_r :: amod where
  "ex_r = ex_s\<lparr>acc := [(0, 0) \<mapsto> 5, (1, 0) \<mapsto> 5, (0, 1) \<mapsto> 5, (1, 1) \<mapsto> 5]\<rparr>"

section \<open>Vehicles on the way\<close>

text \<open>
  What the two flow ledgers record for region \<open>n\<close> at time \<open>t\<close>: the flows on the edges
  of the edge list that end in \<open>n\<close>, with \<open>t\<close> as their recorded time.
\<close>

definition due_at :: "amod \<Rightarrow> int \<Rightarrow> regionid \<Rightarrow> real" where
  "due_at s t n =
     sum_list (map (\<lambda>e. if snd e = n
                         then getdefault (rebFlow s) (e, t) + getdefault (paxFlow s) (e, t)
                         else 0) (edges s))"

text \<open>
  \<open>grid2\<close> at time 1 with travel time 2, after the matching step: two vehicles on the
  edge \<open>(1, 0)\<close> are recorded for time 1, three on the edge \<open>(0, 1)\<close> for time 2.
\<close>

definition ex_c4 :: amod where
  "ex_c4 = ex_s\<lparr>rebTime := (\<lambda>e t. Some 2), time := 1,
                acc := [(0, 1) \<mapsto> 5, (1, 1) \<mapsto> 5, (0, 2) \<mapsto> 5, (1, 2) \<mapsto> 5],
                rebFlow := [((0, 1), 2) \<mapsto> 3, ((1, 0), 1) \<mapsto> 2]\<rparr>"

text \<open>
  \<open>grid2\<close> with one request from region 0 to region 1 at time 0, at the price 0.1: less
  than the operating cost 0.2 of the trip.
\<close>

definition ex_m :: amod where
  "ex_m = ex_s\<lparr>demand := (demand ex_s)(((0, 1), 0) \<mapsto> 1),
               price := (price ex_s)(((0, 1), 0) \<mapsto> 1 / 10)\<rparr>"

section \<open>Passengers who leave unserved\<close>

text \<open>
  The loop over the queue turns the passenger \<open>p\<close> into the result \<open>r\<close> (the passenger
  after the calls, and whether its position was recorded for removal). The passenger left
  unserved when its position was recorded and its wait counter moved: a match does not
  touch the counter.
\<close>

definition left_unserved :: "passenger \<Rightarrow> passenger \<times> bool \<Rightarrow> bool" where
  "left_unserved p r = (snd r \<and> wait_time (fst r) \<noteq> wait_time p)"

definition unserved_count :: "passenger list \<Rightarrow> (passenger \<times> bool) list \<Rightarrow> edge \<Rightarrow> nat" where
  "unserved_count q r e =
     length (filter (\<lambda>x. left_unserved (fst x) (snd x) \<and> (origin (fst x), destination (fst x)) = e)
               (zip q r))"

text \<open>
  \<open>grid2\<close> at time 11 without vehicles: the passenger who asked at time 0 for a trip from
  region 0 to region 1 has waited 11 steps.
\<close>

definition ex_pax :: passenger where
  "ex_pax = \<lparr>origin = 0, destination = 1, request_time = 0, pax_price = 10, wait_time = 11,
             enter_flag = True, matched_flag = False\<rparr>"


text \<open>
  What the loop over the queue may do to a passenger: origin, destination and request time
  stay; if the wait counter moved, it moved by one and the position was recorded for
  removal exactly when the counter reached \<open>MAX_WAIT_STEP\<close>.
\<close>

definition same_trip :: "passenger \<Rightarrow> passenger \<times> bool \<Rightarrow> bool" where
  "same_trip p x = (origin (fst x) = origin p \<and> destination (fst x) = destination p
     \<and> request_time (fst x) = request_time p
     \<and> (wait_time (fst x) \<noteq> wait_time p \<longrightarrow>
           wait_time (fst x) = wait_time p + 1 \<and> snd x = (MAX_WAIT_STEP \<le> wait_time p + 1)))"

section \<open>The request buffer and the shuffle\<close>

text \<open>
  The buffer \<open>buf\<close> after the batches \<open>news\<close> have been appended one after the other, with
  a shuffle of the whole buffer after each.
\<close>

fun shuffled_batch :: "externals \<Rightarrow> passenger list \<Rightarrow> passenger list list \<Rightarrow> passenger list" where
  "shuffled_batch X buf [] = buf"
| "shuffled_batch X buf (new # news) = shuffled_batch X (shuffle X (buf @ new)) news"

text \<open>
  Four regions without vehicles; at time 0 one passenger asks for each of the three trips
  out of region 0.
\<close>

definition grid4 :: graph where
  "grid4 = \<lparr>nodes = [0, 1, 2, 3],
            gedges = [(0, 1), (0, 2), (0, 3), (1, 0), (1, 2), (1, 3),
                      (2, 0), (2, 1), (2, 3), (3, 0), (3, 1), (3, 2)],
            accInit = (\<lambda>n. if n < 4 then Some 0 else None), etime = Map.empty\<rparr>"

definition ex_c6 :: amod where
  "ex_c6 = ex_s\<lparr>demand := (\<lambda>k. if fst (fst k) < 4 \<and> snd (fst k) < 4 \<and> snd k = 0
                               then Some (if fst (fst k) = 0 then 1 else 0) else None),
                price := (\<lambda>k. if fst (fst k) < 4 \<and> snd (fst k) < 4 \<and> snd k = 0
                               then Some 10 else None),
                region := [0, 1, 2, 3],
                acc := [(0, 0) \<mapsto> 0, (1, 0) \<mapsto> 0, (2, 0) \<mapsto> 0, (3, 0) \<mapsto> 0],
                edges := [(0, 0), (0, 1), (0, 2), (0, 3), (1, 1), (1, 0), (1, 2), (1, 3),
                          (2, 2), (2, 0), (2, 1), (2, 3), (3, 3), (3, 0), (3, 1), (3, 2)],
                nregion := 4\<rparr>"

section \<open>A second episode\<close>

text \<open>
  The demand and price tables a list of trip attributes \<open>(i, j, t, d, p)\<close> fills: a later
  entry for the same pair and time replaces an earlier one.
\<close>

definition trip_demand :: "trip list \<Rightarrow> edge \<times> int \<rightharpoonup> real" where
  "trip_demand trips =
     map_of (rev (map (\<lambda>a. ((trip_pair a, fst (snd (snd a))), fst (snd (snd (snd a))))) trips))"

definition trip_price :: "trip list \<Rightarrow> edge \<times> int \<rightharpoonup> real" where
  "trip_price trips =
     map_of (rev (map (\<lambda>a. ((trip_pair a, fst (snd (snd a))), snd (snd (snd (snd a))))) trips))"

text \<open>
  \<open>grid2\<close> after an episode: revenue 7 from one served passenger, a departure demand of 3
  from region 0 at time 0, a passenger left in the queue of region 1, and the time is 3.
\<close>

definition ex_c8 :: amod where
  "ex_c8 = ex_s\<lparr>time := 3, queue := (\<lambda>n. if n = 1 then [ex_pax] else []),
                depDemand := [(0, 0) \<mapsto> 3],
                acc := [(0, 3) \<mapsto> 9, (1, 3) \<mapsto> 1],
                info := info0\<lparr>revenue := 7, served_demand := 1\<rparr>\<rparr>"

definition ex_trips :: "trip list" where
  "ex_trips = [(0, 1, 0, 2, 10), (1, 0, 0, 0, 10)]"

section \<open>The caller's scenario\<close>

text \<open>
  A store with one graph, \<open>grid2\<close> at address 0, and a scenario of that graph with a step
  of two minutes, unit travel times and the trips \<open>ex_trips\<close>.
\<close>

definition ex_store :: store where
  "ex_store = \<lparr>objs = [0 \<mapsto> grid2], next_addr = 1\<rparr>"

definition ex_scenario :: scenario where
  "ex_scenario = \<lparr>sc_G = 0, sc_demandTime = (\<lambda>e t. Some 1), sc_rebTime = (\<lambda>e t. Some 1),
                   sc_tf = 3, sc_tstep = Some 2, sc_tripAttr = ex_trips\<rparr>"

section \<open>The fleet\<close>

text \<open>
  The vehicles of the environment at time \<open>t\<close>: those in the regions at \<open>t\<close> and those the
  flow ledgers record for the times \<open>t, \<dots>, t + h\<close>. (What is recorded for \<open>t\<close> joins the
  inventory of \<open>t + 1\<close> at the end of the step.)
\<close>

definition fleet :: "amod \<Rightarrow> int \<Rightarrow> int \<Rightarrow> real" where
  "fleet s t h =
     sum_list (map (\<lambda>n. getdefault (acc s) (n, t)) (region s))
     + sum_list (map (\<lambda>u. sum_list (map (due_at s u) (region s))) [t..t + h])"

text \<open>
  \<open>grid2\<close> at the start of an episode, with rebalancing times that change over time, as in
  a scenario with \<^verbatim>\<open>varying_time\<close>: two steps at time 0, one step later.
\<close>

definition ex_c1 :: amod where
  "ex_c1 = ex_s\<lparr>rebTime := (\<lambda>e t. if t = 0 then Some 2 else Some 1)\<rparr>"

text \<open>
  The fleet between the two phases of the step at time \<open>t\<close>: the matching phase has
  written the inventories of \<open>t + 1\<close>, and what the ledgers record for \<open>t\<close> has not yet
  arrived.
\<close>

definition fleet_after_match :: "amod \<Rightarrow> int \<Rightarrow> real" where
  "fleet_after_match s h =
     sum_list (map (\<lambda>n. getdefault (acc s) (n, time s + 1)) (region s))
     + sum_list (map (\<lambda>u. sum_list (map (due_at s u) (region s))) [time s..time s + h])"

text \<open>The same count with the vehicles on the way summed edge by edge.\<close>

definition holdings :: "amod \<Rightarrow> int \<Rightarrow> real" where
  "holdings s h =
     sum_list (map (\<lambda>n. getdefault (acc s) (n, time s + 1)) (region s))
     + sum_list (map (\<lambda>u. sum_list (map (\<lambda>e. getdefault (rebFlow s) (e, u)
                                              + getdefault (paxFlow s) (e, u)) (edges s)))
                  [time s..time s + h])"

section \<open>Basic facts\<close>

lemma ebind_Inl [simp]: "ebind (Inl e) f = Inl e"
  by (simp add: ebind_def)

lemma ebind_Inr [simp]: "ebind (Inr x) f = f x"
  by (simp add: ebind_def)

lemma ebind_eq_Inr: "(ebind m f = Inr y) = (\<exists>x. m = Inr x \<and> f x = Inr y)"
  by (cases m) simp_all

lemma getitem_eq_Inr: "(getitem d k = Inr v) = (d k = Some v)"
  by (simp add: getitem_def split: option.splits)

lemma list_get_eq_Inr: "(list_get xs k = Inr v) = (k < length xs \<and> v = xs ! k)"
  by (auto simp: list_get_def)

lemma list_iadd_eq_Inr: "(list_iadd xs k v = Inr ys) = (k < length xs \<and> ys = xs[k := xs ! k + v])"
  by (auto simp: list_iadd_def)

lemma foldE_append: "foldE f (xs @ ys) s = ebind (foldE f xs s) (foldE f ys)"
  by (induction xs arbitrary: s) (simp_all split: sum.splits)

text \<open>A property that every iteration keeps holds after the loop.\<close>

lemma foldE_invariant:
  assumes "foldE f xs s = Inr s'" and "P s"
    and "\<And>x a b. x \<in> set xs \<Longrightarrow> P a \<Longrightarrow> f x a = Inr b \<Longrightarrow> P b"
  shows "P s'"
  using assms
proof (induction xs arbitrary: s)
  case Nil
  then show ?case by simp
next
  case (Cons x xs)
  then obtain s1 where s1: "f x s = Inr s1" and rest: "foldE f xs s1 = Inr s'"
    by (auto split: sum.splits)
  have "P s1" using Cons.prems(2,3) s1 by auto
  then show ?case using Cons.IH [OF rest] Cons.prems(3) by auto
qed

section \<open>The rebalancing loop\<close>

lemma reb_edge_skip: "edges s ! k \<notin> set (gedges g) \<Longrightarrow> reb_edge g k s = Inr s"
  by (simp add: reb_edge_def)

lemma reb_edge_Inr:
  assumes "reb_edge g k s = Inr s'" and "edges s ! k = (i, j)" and "(i, j) \<in> set (gedges g)"
  shows "\<exists>a tt. acc s (i, time s + 1) = Some a \<and> k < length (rebAction s)
      \<and> rebTime s (i, j) (time s) = Some tt \<and> i < length (ext_reward s)
      \<and> s' = s\<lparr>rebAction := (rebAction s)[k := min a (rebAction s ! k)],
                 rebFlow := (rebFlow s)(((i, j), time s + tt) \<mapsto> min a (rebAction s ! k)),
                 acc := (acc s)((i, time s + 1) \<mapsto> a - min a (rebAction s ! k)),
                 dacc := iadd (dacc s) (j, time s + tt) (min a (rebAction s ! k)),
                 info := (info s)\<lparr>rebalancing_cost := rebalancing_cost (info s) + of_int tt * beta s * min a (rebAction s ! k),
                                  operating_cost := operating_cost (info s) + of_int tt * beta s * min a (rebAction s ! k)\<rparr>,
                 reward := reward s - of_int tt * beta s * min a (rebAction s ! k),
                 ext_reward := (ext_reward s)[i := ext_reward s ! i + - (of_int tt * beta s * min a (rebAction s ! k))]\<rparr>"
  using assms
  by (auto simp: reb_edge_def Let_def ebind_eq_Inr getitem_eq_Inr list_get_eq_Inr list_iadd_eq_Inr)

lemma reb_edge_frame:
  assumes "reb_edge g k s = Inr s'"
  shows "edges s' = edges s \<and> time s' = time s \<and> rebTime s' = rebTime s \<and> beta s' = beta s
     \<and> length (rebAction s') = length (rebAction s)
     \<and> (\<forall>m. m \<noteq> k \<longrightarrow> rebAction s' ! m = rebAction s ! m)
     \<and> paxFlow s' = paxFlow s"
proof (cases "edges s ! k \<in> set (gedges g)")
  case False
  then show ?thesis using assms by (simp add: reb_edge_skip)
next
  case True
  obtain i j where ij: "edges s ! k = (i, j)" by (cases "edges s ! k")
  from reb_edge_Inr [OF assms ij] True ij show ?thesis by auto
qed

lemma reb_prefix_frame:
  assumes "foldE (reb_edge g) [0..<k] s0 = Inr sk"
  shows "edges sk = edges s0 \<and> time sk = time s0 \<and> rebTime sk = rebTime s0 \<and> beta sk = beta s0
     \<and> length (rebAction sk) = length (rebAction s0)
     \<and> (\<forall>m\<ge>k. rebAction sk ! m = rebAction s0 ! m) \<and> paxFlow sk = paxFlow s0"
proof (rule foldE_invariant [OF assms])
  show "edges s0 = edges s0 \<and> time s0 = time s0 \<and> rebTime s0 = rebTime s0 \<and> beta s0 = beta s0
     \<and> length (rebAction s0) = length (rebAction s0)
     \<and> (\<forall>m\<ge>k. rebAction s0 ! m = rebAction s0 ! m) \<and> paxFlow s0 = paxFlow s0" by simp
next
  fix x a b
  assume x: "x \<in> set [0..<k]"
    and a: "edges a = edges s0 \<and> time a = time s0 \<and> rebTime a = rebTime s0 \<and> beta a = beta s0
     \<and> length (rebAction a) = length (rebAction s0)
     \<and> (\<forall>m\<ge>k. rebAction a ! m = rebAction s0 ! m) \<and> paxFlow a = paxFlow s0"
    and b: "reb_edge g x a = Inr b"
  from x have "x < k" by simp
  with reb_edge_frame [OF b] a
  show "edges b = edges s0 \<and> time b = time s0 \<and> rebTime b = rebTime s0 \<and> beta b = beta s0
     \<and> length (rebAction b) = length (rebAction s0)
     \<and> (\<forall>m\<ge>k. rebAction b ! m = rebAction s0 ! m) \<and> paxFlow b = paxFlow s0"
    by auto
qed

lemma reb_edge_nonneg:
  assumes "reb_edge g k s = Inr s'"
    and "\<forall>n v. acc s (n, time s + 1) = Some v \<longrightarrow> 0 \<le> v"
  shows "\<forall>n v. acc s' (n, time s + 1) = Some v \<longrightarrow> 0 \<le> v"
proof (cases "edges s ! k \<in> set (gedges g)")
  case False
  then show ?thesis using assms by (simp add: reb_edge_skip)
next
  case True
  obtain i j where ij: "edges s ! k = (i, j)" by (cases "edges s ! k")
  from reb_edge_Inr [OF assms(1) ij] True ij assms(2) show ?thesis
    by (auto split: if_splits)
qed

lemma reb_prefix_nonneg:
  assumes "foldE (reb_edge g) ks s0 = Inr sk"
    and "\<forall>n v. acc s0 (n, time s0 + 1) = Some v \<longrightarrow> 0 \<le> v"
  shows "time sk = time s0 \<and> (\<forall>n v. acc sk (n, time s0 + 1) = Some v \<longrightarrow> 0 \<le> v)"
proof (rule foldE_invariant [OF assms(1)])
  show "time s0 = time s0 \<and> (\<forall>n v. acc s0 (n, time s0 + 1) = Some v \<longrightarrow> 0 \<le> v)"
    using assms(2) by simp
next
  fix x a b
  assume a: "time a = time s0 \<and> (\<forall>n v. acc a (n, time s0 + 1) = Some v \<longrightarrow> 0 \<le> v)"
    and b: "reb_edge g x a = Inr b"
  from reb_edge_nonneg [OF b] reb_edge_frame [OF b] a
  show "time b = time s0 \<and> (\<forall>n v. acc b (n, time s0 + 1) = Some v \<longrightarrow> 0 \<le> v)"
    by simp
qed

text \<open>
  Claim C3. Let \<open>sk\<close> be the environment when \<^verbatim>\<open>reb_step(action)\<close> reaches the edge
  \<open>(i, j)\<close> at index \<open>k\<close>, an edge of the graph. Whatever the request \<open>action ! k\<close> is, the
  flow applied on the edge is the minimum of the inventory \<^verbatim>\<open>acc[i][t+1]\<close> at that
  moment and the request; it is what the ledger records and what region \<open>i\<close> is debited,
  it is at most the inventory, and the inventory left is not negative. If no inventory
  was negative when the call started, none is negative after the edge.
\<close>

theorem reb_flow_clipped:
  assumes pre: "foldE (reb_edge g) [0..<k]
                  (s\<lparr>reward := 0, ext_reward := replicate (nregion s) 0, rebAction := action\<rparr>) = Inr sk"
    and step: "reb_edge g k sk = Inr sk'"
    and e: "edges s ! k = (i, j)" "(i, j) \<in> set (gedges g)"
  shows "\<exists>a tt. acc sk (i, time s + 1) = Some a \<and> k < length action
      \<and> rebTime s (i, j) (time s) = Some tt
      \<and> rebAction sk' ! k = min a (action ! k)
      \<and> rebFlow sk' ((i, j), time s + tt) = Some (min a (action ! k))
      \<and> acc sk' (i, time s + 1) = Some (a - min a (action ! k))
      \<and> min a (action ! k) \<le> a \<and> 0 \<le> a - min a (action ! k)
      \<and> ((\<forall>n v. acc s (n, time s + 1) = Some v \<longrightarrow> 0 \<le> v)
           \<longrightarrow> (\<forall>n v. acc sk' (n, time s + 1) = Some v \<longrightarrow> 0 \<le> v))"
proof -
  let ?s0 = "s\<lparr>reward := 0, ext_reward := replicate (nregion s) 0, rebAction := action\<rparr>"
  from reb_prefix_frame [OF pre]
  have fr: "edges sk = edges s" "time sk = time s" "rebTime sk = rebTime s"
    "length (rebAction sk) = length action" "rebAction sk ! k = action ! k"
    by simp_all
  from e fr have ek: "edges sk ! k = (i, j)" by simp
  from reb_edge_Inr [OF step ek e(2)] obtain a tt where
    a: "acc sk (i, time sk + 1) = Some a" and k: "k < length (rebAction sk)"
    and tt: "rebTime sk (i, j) (time sk) = Some tt"
    and s': "sk' = sk\<lparr>rebAction := (rebAction sk)[k := min a (rebAction sk ! k)],
                 rebFlow := (rebFlow sk)(((i, j), time sk + tt) \<mapsto> min a (rebAction sk ! k)),
                 acc := (acc sk)((i, time sk + 1) \<mapsto> a - min a (rebAction sk ! k)),
                 dacc := iadd (dacc sk) (j, time sk + tt) (min a (rebAction sk ! k)),
                 info := (info sk)\<lparr>rebalancing_cost := rebalancing_cost (info sk) + of_int tt * beta sk * min a (rebAction sk ! k),
                                  operating_cost := operating_cost (info sk) + of_int tt * beta sk * min a (rebAction sk ! k)\<rparr>,
                 reward := reward sk - of_int tt * beta sk * min a (rebAction sk ! k),
                 ext_reward := (ext_reward sk)[i := ext_reward sk ! i + - (of_int tt * beta sk * min a (rebAction sk ! k))]\<rparr>"
    by blast
  have nonneg: "(\<forall>n v. acc s (n, time s + 1) = Some v \<longrightarrow> 0 \<le> v)
           \<longrightarrow> (\<forall>n v. acc sk' (n, time s + 1) = Some v \<longrightarrow> 0 \<le> v)"
  proof
    assume h: "\<forall>n v. acc s (n, time s + 1) = Some v \<longrightarrow> 0 \<le> v"
    then have "\<forall>n v. acc ?s0 (n, time ?s0 + 1) = Some v \<longrightarrow> 0 \<le> v" by simp
    from reb_prefix_nonneg [OF pre this]
    have "\<forall>n v. acc sk (n, time sk + 1) = Some v \<longrightarrow> 0 \<le> v" using fr by simp
    from reb_edge_nonneg [OF step this] fr
    show "\<forall>n v. acc sk' (n, time s + 1) = Some v \<longrightarrow> 0 \<le> v" by simp
  qed
  show ?thesis
    using a k tt fr nonneg by (intro exI [of _ a] exI [of _ tt]) (simp add: s')
qed

text \<open>
  On \<open>grid2\<close> with five vehicles in region 0, a request of seven vehicles on the edge
  \<open>(0, 1)\<close> (index 1 of the edge list) moves five and leaves none.
\<close>

theorem reb_flow_clipped_witness:
  "\<exists>sk sk'. foldE (reb_edge grid2) [0..<1]
       (ex_r\<lparr>reward := 0, ext_reward := replicate (nregion ex_r) 0, rebAction := [0, 7, 0, 0]\<rparr>) = Inr sk
     \<and> reb_edge grid2 1 sk = Inr sk' \<and> edges ex_r ! 1 = (0, 1) \<and> (0, 1) \<in> set (gedges grid2)
     \<and> rebAction sk' ! 1 = 5 \<and> rebFlow sk' ((0, 1), 1) = Some 5 \<and> acc sk' (0, 1) = Some 0
     \<and> (\<forall>n v. acc sk' (n, 1) = Some v \<longrightarrow> 0 \<le> v)"
proof -
  let ?s0 = "ex_r\<lparr>reward := 0, ext_reward := replicate (nregion ex_r) 0, rebAction := [0, 7, 0, 0]\<rparr>"
  have pre: "foldE (reb_edge grid2) [0..<1] ?s0 = Inr ?s0"
    by (simp add: reb_edge_def ex_r_def ex_s_def grid2_def)
  have "\<exists>sk'. reb_edge grid2 1 ?s0 = Inr sk'"
    by (simp add: reb_edge_def ex_r_def ex_s_def grid2_def getitem_def list_get_def list_iadd_def Let_def)
  then obtain sk' where step: "reb_edge grid2 1 ?s0 = Inr sk'" ..
  have e: "edges ex_r ! 1 = (0, 1)" "(0, 1) \<in> set (gedges grid2)"
    by (simp_all add: ex_r_def ex_s_def grid2_def)
  have nn: "\<forall>n v. acc ex_r (n, time ex_r + 1) = Some v \<longrightarrow> 0 \<le> v"
    by (simp add: ex_r_def ex_s_def)
  from reb_flow_clipped [OF pre step e] obtain a tt where
    r: "acc ?s0 (0, time ex_r + 1) = Some a" "rebTime ex_r (0, 1) (time ex_r) = Some tt"
      "rebAction sk' ! 1 = min a ([0, 7, 0, 0] ! 1)"
      "rebFlow sk' ((0, 1), time ex_r + tt) = Some (min a ([0, 7, 0, 0] ! 1))"
      "acc sk' (0, time ex_r + 1) = Some (a - min a ([0, 7, 0, 0] ! 1))"
      "(\<forall>n v. acc ex_r (n, time ex_r + 1) = Some v \<longrightarrow> 0 \<le> v)
           \<longrightarrow> (\<forall>n v. acc sk' (n, time ex_r + 1) = Some v \<longrightarrow> 0 \<le> v)"
    by blast
  from r(1) have a: "a = 5" by (simp add: ex_r_def ex_s_def)
  from r(2) have tt: "tt = 1" by (simp add: ex_r_def ex_s_def)
  have t0: "time ex_r = 0" by (simp add: ex_r_def ex_s_def)
  from r(3,4,5) a tt t0 have vals: "rebAction sk' ! 1 = 5" "rebFlow sk' ((0, 1), 1) = Some 5"
    "acc sk' (0, 1) = Some 0" by simp_all
  from r(6) nn t0 have "\<forall>n v. acc sk' (n, 1) = Some v \<longrightarrow> 0 \<le> v" by simp
  with pre step e vals show ?thesis by blast
qed

section \<open>Self-loops of the edge list\<close>

lemma list_get_update:
  "list_get xs m = list_get ys m \<Longrightarrow> list_get (xs[k := v]) m = list_get (ys[k := v]) m"
  by (cases "k = m") (auto simp: list_get_def split: if_splits)

lemma reb_edge_rebAction:
  assumes "list_get ra k = list_get (rebAction s) k"
  shows "reb_edge g k (s\<lparr>rebAction := ra\<rparr>) =
     (case reb_edge g k s of Inl e \<Rightarrow> Inl e
      | Inr s' \<Rightarrow> Inr (s'\<lparr>rebAction := (if edges s ! k \<in> set (gedges g) then ra[k := rebAction s' ! k] else ra)\<rparr>))"
proof (cases "edges s ! k \<in> set (gedges g)")
  case False
  then show ?thesis by (simp add: reb_edge_def)
next
  case True
  show ?thesis
  proof (cases "acc s (fst (edges s ! k), time s + 1)")
    case None
    then show ?thesis using True by (simp add: reb_edge_def getitem_def)
  next
    case (Some a)
    show ?thesis
    proof (cases "k < length (rebAction s)")
      case False
      then show ?thesis using True Some assms 
        by (simp add: reb_edge_def getitem_def list_get_def split: if_splits)
    next
      case k: True
      then have k': "k < length ra" "ra ! k = rebAction s ! k" using assms
        by (auto simp: list_get_def split: if_splits)
      show ?thesis
      proof (cases "rebTime s (edges s ! k) (time s)")
        case None
        then show ?thesis using True Some k k'
          by (simp add: reb_edge_def getitem_def list_get_def)
      next
        case tt: (Some tt)
        show ?thesis using True Some k k' tt
          by (simp add: reb_edge_def getitem_def list_get_def list_iadd_def Let_def)
      qed
    qed
  qed
qed


lemma reb_loop_rebAction:
  assumes "\<forall>m\<in>set ks. edges s ! m \<in> set (gedges g) \<longrightarrow> list_get ra m = list_get (rebAction s) m"
  shows "case foldE (reb_edge g) ks s of
           Inl e \<Rightarrow> foldE (reb_edge g) ks (s\<lparr>rebAction := ra\<rparr>) = Inl e
         | Inr s' \<Rightarrow> \<exists>ra'. foldE (reb_edge g) ks (s\<lparr>rebAction := ra\<rparr>) = Inr (s'\<lparr>rebAction := ra'\<rparr>)"
  using assms
proof (induction ks arbitrary: s ra)
  case Nil
  show ?case by (simp only: foldE.simps sum.case) (rule exI [of _ ra], rule refl)
next
  case (Cons k ks)
  have step: "reb_edge g k (s\<lparr>rebAction := ra\<rparr>) =
     (case reb_edge g k s of Inl e \<Rightarrow> Inl e
      | Inr s' \<Rightarrow> Inr (s'\<lparr>rebAction := (if edges s ! k \<in> set (gedges g) then ra[k := rebAction s' ! k] else ra)\<rparr>))"
  proof (cases "edges s ! k \<in> set (gedges g)")
    case True
    with Cons.prems have "list_get ra k = list_get (rebAction s) k" by simp
    then show ?thesis by (rule reb_edge_rebAction)
  next
    case False
    then show ?thesis by (simp add: reb_edge_def)
  qed
  show ?case
  proof (cases "reb_edge g k s")
    case (Inl e)
    then show ?thesis using step by simp
  next
    case (Inr s1)
    let ?ra1 = "if edges s ! k \<in> set (gedges g) then ra[k := rebAction s1 ! k] else ra"
    have fr: "edges s1 = edges s" using reb_edge_frame [OF Inr] by simp
    have inv: "\<forall>m\<in>set ks. edges s1 ! m \<in> set (gedges g) \<longrightarrow> list_get ?ra1 m = list_get (rebAction s1) m"
    proof (cases "edges s ! k \<in> set (gedges g)")
      case False
      then have "s1 = s" using Inr by (simp add: reb_edge_def)
      then show ?thesis using False Cons.prems by simp
    next
      case True
      obtain i j where ij: "edges s ! k = (i, j)" by (cases "edges s ! k")
      from reb_edge_Inr [OF Inr ij] True ij
      obtain v where upd: "(rebAction s)[k := v] = rebAction s1" and kl: "k < length (rebAction s)"
        by auto
      from upd kl have v: "rebAction s1 ! k = v" by (metis nth_list_update_eq)
      show ?thesis
      proof (intro ballI impI)
        fix m assume m: "m \<in> set ks" and "edges s1 ! m \<in> set (gedges g)"
        then have "list_get ra m = list_get (rebAction s) m" using Cons.prems fr by simp
        then have "list_get (ra[k := v]) m = list_get ((rebAction s)[k := v]) m"
          by (rule list_get_update)
        then show "list_get ?ra1 m = list_get (rebAction s1) m" using True upd v by simp
      qed
    qed
    have e1: "foldE (reb_edge g) (k # ks) s = foldE (reb_edge g) ks s1"
      using Inr by simp
    have "reb_edge g k (s\<lparr>rebAction := ra\<rparr>) = Inr (s1\<lparr>rebAction := ?ra1\<rparr>)"
      using step Inr by (simp only: sum.case)
    then have e2: "foldE (reb_edge g) (k # ks) (s\<lparr>rebAction := ra\<rparr>)
        = foldE (reb_edge g) ks (s1\<lparr>rebAction := ?ra1\<rparr>)"
      by (simp only: foldE.simps sum.case)
    from Cons.IH [OF inv] show ?thesis by (simp only: e1 e2)
  qed
qed



lemma arrive_edge_rebAction:
  "arrive_edge k (s\<lparr>rebAction := ra\<rparr>) = map_sum id (\<lambda>s'. s'\<lparr>rebAction := ra\<rparr>) (arrive_edge k s)"
  by (simp add: arrive_edge_def arrive_rebFlow_def arrive_paxFlow_def getitem_def Let_def
      split: option.splits)

lemma arrive_loop_rebAction:
  "foldE arrive_edge ks (s\<lparr>rebAction := ra\<rparr>) = map_sum id (\<lambda>s'. s'\<lparr>rebAction := ra\<rparr>) (foldE arrive_edge ks s)"
proof (induction ks arbitrary: s)
  case Nil
  then show ?case by simp
next
  case (Cons k ks)
  then show ?case by (cases "arrive_edge k s") (simp_all add: arrive_edge_rebAction)
qed

lemma refresh_edge_rebAction: "refresh_edge (s\<lparr>rebAction := ra\<rparr>) = refresh_edge s"
  by (intro ext) (simp add: refresh_edge_def)


lemma complete_digraph_no_self_loop: "(i, i) \<notin> set (gedges (complete_digraph N c))"
  by (auto simp: complete_digraph_def)

lemma edge_list_self_loops:
  assumes "set (list_of_set X (concat (map (\<lambda>i. (i, i) # out_edges g i) (nodes g))))
           = set (concat (map (\<lambda>i. (i, i) # out_edges g i) (nodes g)))"
    and "i \<in> set (nodes g)"
  shows "(i, i) \<in> set (edge_list X g)"
  using assms by (auto simp: edge_list_def)

text \<open>
  Claim C10. The edge list holds a self-loop \<open>(i, i)\<close> for every region, and the complete
  directed graph has none. On a graph without self-loops the components of \<^verbatim>\<open>rebAction\<close>
  at the self-loop positions of the edge list are never read: two action vectors that
  agree at every other position make \<^verbatim>\<open>reb_step\<close> raise the same exception, or return
  the same graph, reward and \<^verbatim>\<open>done\<close> and the same environment (inventories, ledgers,
  \<^verbatim>\<open>info\<close>, rewards) up to the stored vector \<^verbatim>\<open>self.rebAction\<close> itself.
\<close>

theorem reb_step_ignores_self_loops:
  assumes noloops: "\<forall>i. (i, i) \<notin> set (gedges g)"
    and same: "\<forall>k<length (edges s). fst (edges s ! k) = snd (edges s ! k) \<or> list_get a2 k = list_get a1 k"
  shows "case reb_step g s a1 of
           Inl e \<Rightarrow> reb_step g s a2 = Inl e
         | Inr r \<Rightarrow> \<exists>ra. reb_step g s a2 = Inr (fst r, (fst (snd r))\<lparr>rebAction := ra\<rparr>, snd (snd r))"
proof -
  let ?s1 = "s\<lparr>reward := 0, ext_reward := replicate (nregion s) 0, rebAction := a1\<rparr>"
  let ?s2 = "s\<lparr>reward := 0, ext_reward := replicate (nregion s) 0, rebAction := a2\<rparr>"
  let ?n = "length (edges s)"
  have s2: "?s2 = ?s1\<lparr>rebAction := a2\<rparr>" by simp
  have pre: "\<forall>m\<in>set [0..<?n]. edges ?s1 ! m \<in> set (gedges g) \<longrightarrow> list_get a2 m = list_get (rebAction ?s1) m"
  proof (intro ballI impI)
    fix m assume m: "m \<in> set [0..<?n]" and e: "edges ?s1 ! m \<in> set (gedges g)"
    from e noloops have "fst (edges s ! m) \<noteq> snd (edges s ! m)"
      by (cases "edges s ! m") auto
    with same m show "list_get a2 m = list_get (rebAction ?s1) m" by auto
  qed
  note loop1 = reb_loop_rebAction [OF pre]
  show ?thesis
  proof (cases "foldE (reb_edge g) [0..<?n] ?s1")
    case (Inl e)
    with loop1 have "foldE (reb_edge g) [0..<?n] ?s2 = Inl e" by (simp only: s2 sum.case)
    with Inl show ?thesis by (simp add: reb_step_def Let_def)
  next
    case (Inr t1)
    with loop1 obtain ra where t2: "foldE (reb_edge g) [0..<?n] ?s2 = Inr (t1\<lparr>rebAction := ra\<rparr>)"
      by (auto simp only: s2 sum.case)
    have l2: "foldE arrive_edge [0..<length (edges t1)] (t1\<lparr>rebAction := ra\<rparr>)
        = map_sum id (\<lambda>s'. s'\<lparr>rebAction := ra\<rparr>) (foldE arrive_edge [0..<length (edges t1)] t1)"
      by (rule arrive_loop_rebAction)
    show ?thesis
    proof (cases "foldE arrive_edge [0..<length (edges t1)] t1")
      case (Inl e)
      then show ?thesis using Inr t2 l2 by (simp add: reb_step_def Let_def)
    next
      case u: (Inr u1)
      have r3: "refresh_edge (u1\<lparr>rebAction := ra, time := time u1 + 1\<rparr>) = refresh_edge (u1\<lparr>time := time u1 + 1\<rparr>)"
        by (intro ext) (simp add: refresh_edge_def)
      show ?thesis
      proof (cases "foldE (refresh_edge (u1\<lparr>time := time u1 + 1\<rparr>)) (gedges g) g")
        case (Inl e)
        then show ?thesis using Inr t2 l2 u r3 by (simp add: reb_step_def Let_def)
      next
        case g': (Inr g')
        have a: "reb_step g s a1 = Inr (g', u1\<lparr>time := time u1 + 1\<rparr>, reward u1, tf u1 = time s + 1)"
          using Inr u g' by (simp add: reb_step_def Let_def)
        have b: "reb_step g s a2 = Inr (g', u1\<lparr>rebAction := ra, time := time u1 + 1\<rparr>, reward u1, tf u1 = time s + 1)"
          using t2 l2 u g' r3 by (simp add: reb_step_def Let_def)
        show ?thesis unfolding a b 
          by (simp only: sum.case fst_conv snd_conv) (rule exI [of _ ra], simp)
      qed
    qed
  qed
qed


lemma complete_digraph_2: "complete_digraph 2 5 = grid2"
  by (simp add: complete_digraph_def grid2_def upt_rec)

lemma reb_step_ex_r:
  "\<exists>g' s' r. reb_step grid2 ex_r [9, 1, 0, 3] = Inr (g', s', r, False)"
  by (simp add: reb_step_def reb_edge_def arrive_edge_def arrive_rebFlow_def arrive_paxFlow_def
      refresh_edge_def ex_r_def ex_s_def grid2_def getitem_def list_get_def list_iadd_def iadd_def
      getdefault_def Let_def upt_rec)

text \<open>
  On two regions the requests 9 and 3 on the self-loops (positions 0 and 3) change
  nothing.
\<close>

theorem reb_step_ignores_self_loops_witness:
  "(\<forall>i. (i, i) \<notin> set (gedges (complete_digraph 2 5)))
   \<and> (\<exists>g' s' r d ra. reb_step (complete_digraph 2 5) ex_r [9, 1, 0, 3] = Inr (g', s', r, d)
         \<and> reb_step (complete_digraph 2 5) ex_r [0, 1, 0, 0] = Inr (g', s'\<lparr>rebAction := ra\<rparr>, r, d))"
proof -
  have noloops: "\<forall>i. (i, i) \<notin> set (gedges (complete_digraph 2 5))"
    by (simp add: complete_digraph_no_self_loop)
  have same: "\<forall>k<length (edges ex_r). fst (edges ex_r ! k) = snd (edges ex_r ! k)
      \<or> list_get [0, 1, 0, 0] k = list_get [9, 1, 0, 3] k"
  proof (intro allI impI)
    fix k assume "k < length (edges ex_r)"
    then have "k = 0 \<or> k = 1 \<or> k = 2 \<or> k = 3" by (auto simp: ex_r_def ex_s_def)
    then show "fst (edges ex_r ! k) = snd (edges ex_r ! k)
      \<or> list_get [0, 1, 0, 0] k = list_get [9, 1, 0, 3] k"
      by (auto simp: ex_r_def ex_s_def list_get_def)
  qed
  from reb_step_ex_r obtain x where x: "reb_step (complete_digraph 2 5) ex_r [9, 1, 0, 3] = Inr x"
    unfolding complete_digraph_2 by blast
  obtain g' s' r d where xx: "x = (g', s', r, d)" by (metis prod_cases4)
  from reb_step_ignores_self_loops [OF noloops same]
  have "\<exists>ra. reb_step (complete_digraph 2 5) ex_r [0, 1, 0, 0]
      = Inr (fst x, (fst (snd x))\<lparr>rebAction := ra\<rparr>, snd (snd x))"
    by (simp only: x sum.case)
  then obtain ra where "reb_step (complete_digraph 2 5) ex_r [0, 1, 0, 0]
      = Inr (fst x, (fst (snd x))\<lparr>rebAction := ra\<rparr>, snd (snd x))" ..
  then have b: "reb_step (complete_digraph 2 5) ex_r [0, 1, 0, 0] = Inr (g', s'\<lparr>rebAction := ra\<rparr>, r, d)"
    by (simp only: xx fst_conv snd_conv)
  from x xx have a: "reb_step (complete_digraph 2 5) ex_r [9, 1, 0, 3] = Inr (g', s', r, d)"
    by (simp only:)
  from a b have "\<exists>g' s' r d ra. reb_step (complete_digraph 2 5) ex_r [9, 1, 0, 3] = Inr (g', s', r, d)
         \<and> reb_step (complete_digraph 2 5) ex_r [0, 1, 0, 0] = Inr (g', s'\<lparr>rebAction := ra\<rparr>, r, d)"
    by blast
  with noloops show ?thesis by (rule conjI)
qed

section \<open>Arrivals at the end of \<^verbatim>\<open>reb_step\<close>\<close>

lemma arrive_edge_Inr:
  assumes "arrive_edge k s = Inr s'"
  shows "edges s' = edges s \<and> time s' = time s \<and> rebFlow s' = rebFlow s \<and> paxFlow s' = paxFlow s
     \<and> reward s' = reward s \<and> rebAction s' = rebAction s \<and> tf s' = tf s \<and> rebTime s' = rebTime s
     \<and> beta s' = beta s
     \<and> (\<forall>n. acc s' (n, time s + 1) =
            map_option (\<lambda>a. a + (if snd (edges s ! k) = n
                 then getdefault (rebFlow s) (edges s ! k, time s) + getdefault (paxFlow s) (edges s ! k, time s)
                 else 0)) (acc s (n, time s + 1)))
     \<and> (\<forall>n t. t \<noteq> time s + 1 \<longrightarrow> acc s' (n, t) = acc s (n, t))"
proof -
  obtain i j where ij: "edges s ! k = (i, j)" by (cases "edges s ! k")
  from assms obtain s1 where s1: "arrive_rebFlow k s = Inr s1" and s2: "arrive_paxFlow k s1 = Inr s'"
    by (auto simp: arrive_edge_def ebind_eq_Inr)
  have a: "edges s1 = edges s \<and> time s1 = time s \<and> rebFlow s1 = rebFlow s \<and> paxFlow s1 = paxFlow s
     \<and> reward s1 = reward s \<and> rebAction s1 = rebAction s \<and> tf s1 = tf s \<and> rebTime s1 = rebTime s
     \<and> beta s1 = beta s
     \<and> (\<forall>n. acc s1 (n, time s + 1) =
            map_option (\<lambda>a. a + (if j = n then getdefault (rebFlow s) ((i, j), time s) else 0)) (acc s (n, time s + 1)))
     \<and> (\<forall>n t. t \<noteq> time s + 1 \<longrightarrow> acc s1 (n, t) = acc s (n, t))"
    using s1 ij
    by (cases "rebFlow s ((i, j), time s)")
      (auto simp: arrive_rebFlow_def Let_def ebind_eq_Inr getitem_eq_Inr getdefault_def option.map_ident split: option.splits)
  have b: "edges s' = edges s1 \<and> time s' = time s1 \<and> rebFlow s' = rebFlow s1 \<and> paxFlow s' = paxFlow s1
     \<and> reward s' = reward s1 \<and> rebAction s' = rebAction s1 \<and> tf s' = tf s1 \<and> rebTime s' = rebTime s1
     \<and> beta s' = beta s1
     \<and> (\<forall>n. acc s' (n, time s1 + 1) =
            map_option (\<lambda>a. a + (if j = n then getdefault (paxFlow s1) ((i, j), time s1) else 0)) (acc s1 (n, time s1 + 1)))
     \<and> (\<forall>n t. t \<noteq> time s1 + 1 \<longrightarrow> acc s' (n, t) = acc s1 (n, t))"
    using s2 ij a
    by (cases "paxFlow s1 ((i, j), time s1)")
      (auto simp: arrive_paxFlow_def Let_def ebind_eq_Inr getitem_eq_Inr getdefault_def option.map_ident split: option.splits)
  show ?thesis
  proof (intro conjI allI impI)
    fix n
    show "acc s' (n, time s + 1) =
            map_option (\<lambda>a. a + (if snd (edges s ! k) = n
                 then getdefault (rebFlow s) (edges s ! k, time s) + getdefault (paxFlow s) (edges s ! k, time s)
                 else 0)) (acc s (n, time s + 1))"
      using a b ij by (cases "acc s (n, time s + 1)") (simp_all add: add.assoc)
  qed (use a b in simp_all)
qed


lemma arrive_loop_Inr:
  assumes "foldE arrive_edge ks s = Inr s'"
  shows "edges s' = edges s \<and> time s' = time s \<and> rebFlow s' = rebFlow s \<and> paxFlow s' = paxFlow s
     \<and> reward s' = reward s \<and> rebAction s' = rebAction s \<and> tf s' = tf s \<and> rebTime s' = rebTime s
     \<and> beta s' = beta s
     \<and> (\<forall>n. acc s' (n, time s + 1) =
            map_option (\<lambda>a. a + sum_list (map (\<lambda>k. if snd (edges s ! k) = n
                 then getdefault (rebFlow s) (edges s ! k, time s) + getdefault (paxFlow s) (edges s ! k, time s)
                 else 0) ks)) (acc s (n, time s + 1)))
     \<and> (\<forall>n t. t \<noteq> time s + 1 \<longrightarrow> acc s' (n, t) = acc s (n, t))"
  using assms
proof (induction ks arbitrary: s)
  case Nil
  then show ?case by (simp add: option.map_ident)
next
  case (Cons k ks)
  then obtain s1 where s1: "arrive_edge k s = Inr s1" and rest: "foldE arrive_edge ks s1 = Inr s'"
    by (auto split: sum.splits)
  note a = arrive_edge_Inr [OF s1]
  note b = Cons.IH [OF rest]
  show ?case
  proof (intro conjI allI impI)
    fix n
    show "acc s' (n, time s + 1) =
            map_option (\<lambda>a. a + sum_list (map (\<lambda>k. if snd (edges s ! k) = n
                 then getdefault (rebFlow s) (edges s ! k, time s) + getdefault (paxFlow s) (edges s ! k, time s)
                 else 0) (k # ks))) (acc s (n, time s + 1))"
      using a b by (cases "acc s (n, time s + 1)") (simp_all add: add.assoc cong: if_cong)
  qed (use a b in simp_all)
qed

lemma refresh_loop_Inr:
  assumes "foldE (refresh_edge s) es g = Inr g'"
  shows "nodes g' = nodes g \<and> gedges g' = gedges g \<and> accInit g' = accInit g
     \<and> (\<forall>e\<in>set es. etime g' e = rebTime s e (time s) \<and> rebTime s e (time s) \<noteq> None)
     \<and> (\<forall>e. e \<notin> set es \<longrightarrow> etime g' e = etime g e)"
  using assms
proof (induction es arbitrary: g)
  case Nil
  then show ?case by simp
next
  case (Cons x es)
  then obtain g1 where g1: "refresh_edge s x g = Inr g1" and rest: "foldE (refresh_edge s) es g1 = Inr g'"
    by (auto split: sum.splits)
  from g1 obtain tt where tt: "rebTime s x (time s) = Some tt" and g1': "g1 = g\<lparr>etime := (etime g)(x \<mapsto> tt)\<rparr>"
    by (auto simp: refresh_edge_def ebind_eq_Inr getitem_eq_Inr)
  note b = Cons.IH [OF rest]
  have x: "etime g' x = rebTime s x (time s)"
  proof (cases "x \<in> set es")
    case True
    then show ?thesis using b by simp
  next
    case False
    then have "etime g' x = etime g1 x" using b by blast
    then show ?thesis using g1' tt by simp
  qed
  show ?case using b x tt g1' by auto
qed

text \<open>
  Claim C4, amended. When \<^verbatim>\<open>reb_step\<close> is called at time \<open>t\<close> and returns, let \<open>s1\<close> be the
  environment after the loop over the edges. The inventory of every region at \<open>t + 1\<close> has
  grown by what the two flow ledgers record for that region at time \<open>t\<close>, the time of the
  call (not \<open>t + 1\<close>), over the edges of the edge list; no other inventory and no ledger
  changes; the time is \<open>t + 1\<close>, and the attribute \<^verbatim>\<open>time\<close> of every edge of the graph is
  the rebalancing time of that edge at \<open>t + 1\<close>.
\<close>

theorem reb_step_arrivals:
  assumes "reb_step g s action = Inr (g', s', r, d)"
  shows "\<exists>s1. foldE (reb_edge g) [0..<length (edges s)]
               (s\<lparr>reward := 0, ext_reward := replicate (nregion s) 0, rebAction := action\<rparr>) = Inr s1
     \<and> (\<forall>n. acc s' (n, time s + 1) = map_option (\<lambda>a. a + due_at s1 (time s) n) (acc s1 (n, time s + 1)))
     \<and> (\<forall>n t. t \<noteq> time s + 1 \<longrightarrow> acc s' (n, t) = acc s1 (n, t))
     \<and> rebFlow s' = rebFlow s1 \<and> paxFlow s' = paxFlow s1
     \<and> time s' = time s + 1
     \<and> nodes g' = nodes g \<and> gedges g' = gedges g
     \<and> (\<forall>e\<in>set (gedges g). etime g' e = rebTime s e (time s + 1))
     \<and> (\<forall>e. e \<notin> set (gedges g) \<longrightarrow> etime g' e = etime g e)"
proof -
  let ?s0 = "s\<lparr>reward := 0, ext_reward := replicate (nregion s) 0, rebAction := action\<rparr>"
  from assms obtain s1 s2 where
    l1: "foldE (reb_edge g) [0..<length (edges s)] ?s0 = Inr s1"
    and l2: "foldE arrive_edge [0..<length (edges s1)] s1 = Inr s2"
    and l3: "foldE (refresh_edge (s2\<lparr>time := time s2 + 1\<rparr>)) (gedges g) g = Inr g'"
    and s': "s' = s2\<lparr>time := time s2 + 1\<rparr>"
    by (auto simp: reb_step_def Let_def ebind_eq_Inr)
  from reb_prefix_frame [OF l1] have f1: "edges s1 = edges s" "time s1 = time s" "rebTime s1 = rebTime s"
    by simp_all
  note a = arrive_loop_Inr [OF l2]
  note c = refresh_loop_Inr [OF l3]
  have due: "\<And>n. sum_list (map (\<lambda>k. if snd (edges s1 ! k) = n
                 then getdefault (rebFlow s1) (edges s1 ! k, time s1) + getdefault (paxFlow s1) (edges s1 ! k, time s1)
                 else 0) [0..<length (edges s1)]) = due_at s1 (time s) n"
  proof -
    fix n
    let ?f = "\<lambda>e. if snd e = n
                 then getdefault (rebFlow s1) (e, time s1) + getdefault (paxFlow s1) (e, time s1)
                 else 0"
    have "map (\<lambda>k. ?f (edges s1 ! k)) [0..<length (edges s1)] = map ?f (map (\<lambda>k. edges s1 ! k) [0..<length (edges s1)])"
      by (simp add: comp_def)
    also have "\<dots> = map ?f (edges s1)" by (simp only: map_nth)
    finally show "sum_list (map (\<lambda>k. ?f (edges s1 ! k)) [0..<length (edges s1)]) = due_at s1 (time s) n"
      by (simp add: due_at_def f1 cong: if_cong)
  qed
  show ?thesis
  proof (intro exI [of _ s1] conjI allI impI ballI)
    show "foldE (reb_edge g) [0..<length (edges s)] ?s0 = Inr s1" by (rule l1)
  next
    fix n show "acc s' (n, time s + 1) = map_option (\<lambda>a. a + due_at s1 (time s) n) (acc s1 (n, time s + 1))"
      using a due [of n] f1 s' by simp
  next
    fix n t assume "t \<noteq> time s + 1"
    then show "acc s' (n, t) = acc s1 (n, t)" using a f1 s' by simp
  next
    fix e assume "e \<in> set (gedges g)"
    then show "etime g' e = rebTime s e (time s + 1)" using c a f1 by simp
  next
    fix e assume "e \<notin> set (gedges g)"
    then show "etime g' e = etime g e" using c by blast
  qed (use a c f1 s' in simp_all)
qed


lemmas reb_eval = reb_step_def reb_edge_def arrive_edge_def arrive_rebFlow_def arrive_paxFlow_def
  refresh_edge_def getitem_def list_get_def list_iadd_def iadd_def getdefault_def Let_def upt_rec

text \<open>
  Claim C4 as stated fails: at time 1 three vehicles are recorded for region 1 at time 2,
  and \<^verbatim>\<open>reb_step\<close> leaves the inventory of region 1 at time 2 at five.
\<close>

theorem arrivals_due_next_step_counterexample:
  "\<exists>g' s'. reb_step grid2 ex_c4 [0, 0, 0, 0] = Inr (g', s', 0, False)
     \<and> due_at ex_c4 (time ex_c4 + 1) 1 = 3
     \<and> acc ex_c4 (1, time ex_c4 + 1) = Some 5
     \<and> acc s' (1, time ex_c4 + 1) = Some 5"
  by (simp add: reb_eval due_at_def ex_c4_def ex_s_def grid2_def)

text \<open>
  In the same call the two vehicles recorded for region 0 at time 1 are added: region 0
  has seven vehicles at time 2.
\<close>

theorem reb_step_arrivals_witness:
  "\<exists>g' s'. reb_step grid2 ex_c4 [0, 0, 0, 0] = Inr (g', s', 0, False)
     \<and> acc s' (0, 2) = Some 7 \<and> acc s' (1, 2) = Some 5 \<and> time s' = 2
     \<and> etime g' (0, 1) = Some 2"
proof -
  have "\<exists>g' s'. reb_step grid2 ex_c4 [0, 0, 0, 0] = Inr (g', s', 0, False)"
    by (simp add: reb_eval ex_c4_def ex_s_def grid2_def)
  then obtain g' s' where rs: "reb_step grid2 ex_c4 [0, 0, 0, 0] = Inr (g', s', 0, False)"
    by blast
  have "\<exists>s1. foldE (reb_edge grid2) [0..<length (edges ex_c4)]
               (ex_c4\<lparr>reward := 0, ext_reward := replicate (nregion ex_c4) 0, rebAction := [0, 0, 0, 0]\<rparr>) = Inr s1
        \<and> acc s1 (0, 2) = Some 5 \<and> acc s1 (1, 2) = Some 5 \<and> due_at s1 1 0 = 2 \<and> due_at s1 1 1 = 0"
    by (simp add: reb_eval due_at_def ex_c4_def ex_s_def grid2_def)
  then obtain s1 where l1: "foldE (reb_edge grid2) [0..<length (edges ex_c4)]
               (ex_c4\<lparr>reward := 0, ext_reward := replicate (nregion ex_c4) 0, rebAction := [0, 0, 0, 0]\<rparr>) = Inr s1"
    and v: "acc s1 (0, 2) = Some 5" "acc s1 (1, 2) = Some 5" "due_at s1 1 0 = 2" "due_at s1 1 1 = 0"
    by blast
  have t: "time ex_c4 = 1" by (simp add: ex_c4_def)
  have e: "(0, 1) \<in> set (gedges grid2)" by (simp add: grid2_def)
  have rt: "rebTime ex_c4 (0, 1) 2 = Some 2" by (simp add: ex_c4_def)
  from reb_step_arrivals [OF rs] l1 have
    a: "\<forall>n. acc s' (n, time ex_c4 + 1) = map_option (\<lambda>a. a + due_at s1 (time ex_c4) n) (acc s1 (n, time ex_c4 + 1))"
    and tm: "time s' = time ex_c4 + 1"
    and et: "\<forall>e\<in>set (gedges grid2). etime g' e = rebTime ex_c4 e (time ex_c4 + 1)"
    by auto
  from a [rule_format, of 0] v t have a0: "acc s' (0, 2) = Some 7" by simp
  from a [rule_format, of 1] v t have a1: "acc s' (1, 2) = Some 5" by simp
  from et e rt t have e1: "etime g' (0, 1) = Some 2" by auto
  from rs a0 a1 tm t e1 show ?thesis by auto
qed

section \<open>Rewards\<close>

lemmas match_eval = match_step_simple_def match_region_def materialise_def priced_def
  match_pax_def unmatched_pax_def unmatched_update_def pax_match_def enter_def
  neighbors_def out_edges_def getitem_def list_get_def list_iadd_def iadd_def getdefault_def
  new_passengers_def ex_X_def MAX_WAIT_STEP_def Let_def

lemma foldE_single: "foldE f [x] s = f x s"
  by (cases "f x s") simp_all

lemma foldE_snoc_Inr:
  "(foldE f (xs @ [x]) s = Inr s') = (\<exists>sm. foldE f xs s = Inr sm \<and> f x sm = Inr s')"
  by (simp add: foldE_append ebind_eq_Inr foldE_single del: foldE.simps)

lemma reb_loop_reward:
  "foldE (reb_edge g) [0..<k] s0 = Inr sk \<Longrightarrow>
     reward sk = reward s0 - sum_list (map (\<lambda>m. if edges s0 ! m \<in> set (gedges g)
          then of_int (the (rebTime s0 (edges s0 ! m) (time s0))) * beta s0 * (rebAction sk ! m) else 0) [0..<k])"
proof (induction k arbitrary: sk)
  case 0
  then show ?case by simp
next
  case (Suc k)
  from Suc.prems obtain sm where sm: "foldE (reb_edge g) [0..<k] s0 = Inr sm"
    and step: "reb_edge g k sm = Inr sk"
    by (auto simp: foldE_snoc_Inr)
  note fr = reb_prefix_frame [OF sm]
  note fs = reb_edge_frame [OF step]
  have same: "map (\<lambda>m. if edges s0 ! m \<in> set (gedges g)
          then of_int (the (rebTime s0 (edges s0 ! m) (time s0))) * beta s0 * (rebAction sk ! m) else 0) [0..<k]
     = map (\<lambda>m. if edges s0 ! m \<in> set (gedges g)
          then of_int (the (rebTime s0 (edges s0 ! m) (time s0))) * beta s0 * (rebAction sm ! m) else 0) [0..<k]"
    using fs by (intro map_cong) auto
  have last: "reward sk = reward sm - (if edges s0 ! k \<in> set (gedges g)
          then of_int (the (rebTime s0 (edges s0 ! k) (time s0))) * beta s0 * (rebAction sk ! k) else 0)"
  proof (cases "edges sm ! k \<in> set (gedges g)")
    case False
    then show ?thesis using step fr by (simp add: reb_edge_skip)
  next
    case True
    obtain i j where ij: "edges sm ! k = (i, j)" by (cases "edges sm ! k")
    from reb_edge_Inr [OF step ij] True ij fr show ?thesis by auto
  qed
  show ?case using Suc.IH [OF sm] last by (simp add: same)
qed


lemmas pax_eval = pax_step_def pax_copy_def pax_edge_def getitem_def list_get_def list_iadd_def
  iadd_def getdefault_def Let_def upt_rec

lemma match_step_simple_reward:
  "match_step_simple X g s pr = Inr (s1, r1, d1) \<Longrightarrow> r1 = max 0 (reward s1) \<and> 0 \<le> r1"
  by (auto simp: match_step_simple_def Let_def ebind_eq_Inr split: if_splits)

lemma pax_step_reward:
  "pax_step s a = Inr (s2, r2, d2) \<Longrightarrow> r2 = max 0 (reward s2) \<and> 0 \<le> r2"
  by (auto simp: pax_step_def Let_def ebind_eq_Inr)

lemma reb_step_reward:
  assumes "reb_step g s a = Inr (g3, s3, r3, d3)"
  shows "r3 = reward s3 \<and> r3 = - sum_list (map (\<lambda>k. if edges s ! k \<in> set (gedges g)
          then of_int (the (rebTime s (edges s ! k) (time s))) * beta s * (rebAction s3 ! k) else 0)
          [0..<length (edges s)])"
proof -
  let ?s0 = "s\<lparr>reward := 0, ext_reward := replicate (nregion s) 0, rebAction := a\<rparr>"
  from assms obtain t1 t2 where
    l1: "foldE (reb_edge g) [0..<length (edges s)] ?s0 = Inr t1"
    and l2: "foldE arrive_edge [0..<length (edges t1)] t1 = Inr t2"
    and s3: "s3 = t2\<lparr>time := time t2 + 1\<rparr>" and r3: "r3 = reward s3"
    by (auto simp: reb_step_def Let_def ebind_eq_Inr)
  note a = arrive_loop_Inr [OF l2]
  from reb_loop_reward [OF l1] a s3 r3 show ?thesis by (simp cong: if_cong)
qed

lemma reb_step_negative: "\<exists>g' s'. reb_step grid2 ex_r [0, 7, 0, 0] = Inr (g', s', - 1, False)"
  by (simp add: reb_eval ex_r_def ex_s_def grid2_def)

lemma match_step_ex_m:
  "\<exists>s1. match_step_simple ex_X grid2 ex_m None = Inr (s1, 0, False) \<and> reward s1 = - (1 / 10)
      \<and> acc s1 (0, 1) = Some 4"
  by (simp add: match_eval ex_m_def ex_s_def grid2_def)

lemma pax_step_ex_s:
  "\<exists>s2. pax_step ex_s [0, 2, 0, 0] = Inr (s2, 98 / 5, False)"
  by (simp add: pax_eval ex_s_def)


text \<open>
  Claim C2. The reward a matching call returns (\<^verbatim>\<open>match_step_simple\<close> or \<^verbatim>\<open>pax_step\<close>) is
  the maximum of 0 and the reward accumulated in \<^verbatim>\<open>self.reward\<close>, so it is never negative.
  The reward \<^verbatim>\<open>reb_step\<close> returns is \<^verbatim>\<open>self.reward\<close> itself: minus the sum, over the
  positions of the edge list that hold an edge of the graph, of rebalancing time times
  \<open>beta\<close> times the applied flow; and there is a call that returns a negative reward.
\<close>

theorem reward_floor:
  "(match_step_simple X g s pr = Inr (sm, rm, dm) \<longrightarrow> rm = max 0 (reward sm) \<and> 0 \<le> rm)
   \<and> (pax_step s a = Inr (sp, rp, dp) \<longrightarrow> rp = max 0 (reward sp) \<and> 0 \<le> rp)
   \<and> (reb_step g s b = Inr (gr, sr, rr, dr) \<longrightarrow>
        rr = reward sr \<and> rr = - sum_list (map (\<lambda>k. if edges s ! k \<in> set (gedges g)
          then of_int (the (rebTime s (edges s ! k) (time s))) * beta s * (rebAction sr ! k) else 0)
          [0..<length (edges s)]))
   \<and> (\<exists>g0 s0 b0 g' s' r. reb_step g0 s0 b0 = Inr (g', s', r, False) \<and> r < 0)"
proof (intro conjI impI)
  from reb_step_negative obtain g' s' where "reb_step grid2 ex_r [0, 7, 0, 0] = Inr (g', s', - 1, False)"
    by blast
  moreover have "(- 1 :: real) < 0" by simp
  ultimately show "\<exists>g0 s0 b0 g' s' r. reb_step g0 s0 b0 = Inr (g', s', r, False) \<and> r < 0"
    by blast
qed (simp_all add: match_step_simple_reward pax_step_reward reb_step_reward)

text \<open>
  A passenger who pays 0.1 for a trip that costs 0.2 makes the accumulated reward -0.1
  and the returned reward 0; serving two requests at the price 10 returns 19.6; moving five
  vehicles for one step returns -1.
\<close>

theorem reward_floor_witness:
  "\<exists>s1 s2 g3 s3. match_step_simple ex_X grid2 ex_m None = Inr (s1, 0, False)
      \<and> reward s1 = - (1 / 10) \<and> 0 = max 0 (reward s1)
      \<and> pax_step ex_s [0, 2, 0, 0] = Inr (s2, 98 / 5, False) \<and> 98 / 5 = max 0 (reward s2)
      \<and> reb_step grid2 ex_r [0, 7, 0, 0] = Inr (g3, s3, - 1, False) \<and> - 1 = reward s3"
proof -
  from match_step_ex_m obtain s1 where
    m: "match_step_simple ex_X grid2 ex_m None = Inr (s1, 0, False)" and r1: "reward s1 = - (1 / 10)"
    by blast
  from pax_step_ex_s obtain s2 where p: "pax_step ex_s [0, 2, 0, 0] = Inr (s2, 98 / 5, False)"
    by blast
  from reb_step_negative obtain g3 s3 where r: "reb_step grid2 ex_r [0, 7, 0, 0] = Inr (g3, s3, - 1, False)"
    by blast
  from reward_floor [where X = ex_X and g = grid2 and s = ex_m and pr = None and sm = s1
      and rm = 0 and dm = False] m
  have a: "0 = max 0 (reward s1)" by blast
  from reward_floor [where s = ex_s and a = "[0, 2, 0, 0]" and sp = s2 and rp = "98 / 5" and dp = False] p
  have b: "98 / 5 = max 0 (reward s2)" by blast
  from reward_floor [where g = grid2 and s = ex_r and b = "[0, 7, 0, 0]" and gr = g3 and sr = s3
      and rr = "- 1" and dr = False] r
  have c: "- 1 = reward s3" by blast
  from m r1 a p b r c show ?thesis by blast
qed

section \<open>Passengers who leave the queue unserved\<close>

lemma getdefault_iadd:
  "getdefault (iadd m k v) k' = getdefault m k' + (if k' = k then v else 0)"
  by (simp add: iadd_def getdefault_def)

lemma iadd_other: "k' \<noteq> k \<Longrightarrow> iadd m k v k' = m k'"
  by (simp add: iadd_def)

lemma unmatched_pax_facts:
  assumes "unmatched_pax pax s = (s', pax', gone)"
  shows "time s' = time s \<and> origin pax' = origin pax \<and> destination pax' = destination pax
     \<and> request_time pax' = request_time pax \<and> wait_time pax' = wait_time pax + 1
     \<and> gone = (MAX_WAIT_STEP \<le> wait_time pax + 1)
     \<and> unservedDemand s' = (if gone then iadd (unservedDemand s) ((origin pax, destination pax), time s) 1
                              else unservedDemand s)
     \<and> unserved_demand (info s') = unserved_demand (info s) + (if gone then 1 else 0)"
  using assms by (auto simp: unmatched_pax_def unmatched_update_def Let_def split: if_splits)

lemma match_pax_facts:
  assumes "match_pax X n i pax (s, a) = Inr ((s', a'), pax', gone)"
  shows "time s' = time s \<and> origin pax' = origin pax \<and> destination pax' = destination pax
     \<and> request_time pax' = request_time pax
     \<and> (if wait_time pax' = wait_time pax then gone \<and> unservedDemand s' = unservedDemand s
         else wait_time pax' = wait_time pax + 1 \<and> gone = (MAX_WAIT_STEP \<le> wait_time pax + 1)
            \<and> a' = a \<and> (a = 0 \<or> \<not> accept X n i)
            \<and> unservedDemand s' = (if gone then iadd (unservedDemand s) ((origin pax, destination pax), time s) 1
                              else unservedDemand s))"
proof (cases "a \<noteq> 0")
  case False
  then have "unmatched_pax pax s = (s', pax', gone)" and "a' = a"
    using assms by (auto simp: match_pax_def Let_def prod_eq_iff)
  with unmatched_pax_facts [OF this(1)] False show ?thesis by simp
next
  case True
  with assms obtain m where m: "pax_match (accept X n i) pax = Inr m" 
    by (auto simp: match_pax_def Let_def ebind_eq_Inr)
  show ?thesis
  proof (cases "snd m")
    case acc: True
    then have "accept X n i" "fst m = pax\<lparr>matched_flag := True\<rparr>"
      using m by (auto simp: pax_match_def split: if_splits)
    then show ?thesis using assms True m acc
      by (auto simp: match_pax_def Let_def ebind_eq_Inr)
  next
    case rej: False
    then have f: "\<not> accept X n i" "fst m = pax"
      using m by (auto simp: pax_match_def split: if_splits)
    then have "unmatched_pax pax s = (s', pax', gone)" and "a' = a"
      using assms True m rej by (auto simp: match_pax_def Let_def prod_eq_iff)
    with unmatched_pax_facts [OF this(1)] f show ?thesis by simp
  qed
qed


lemma match_pax_unserved:
  assumes "match_pax X n i pax (s, a) = Inr ((s', a'), x)"
  shows "time s' = time s \<and> same_trip pax x
     \<and> (\<forall>e. getdefault (unservedDemand s') (e, time s) = getdefault (unservedDemand s) (e, time s)
            + (if left_unserved pax x \<and> (origin pax, destination pax) = e then 1 else 0))
     \<and> (\<forall>e t. t \<noteq> time s \<longrightarrow> unservedDemand s' (e, t) = unservedDemand s (e, t))"
proof -
  obtain pax' gone where x: "x = (pax', gone)" by (cases x)
  note f = match_pax_facts [OF assms [unfolded x]]
  show ?thesis
  proof (cases "wait_time pax' = wait_time pax")
    case True
    with f show ?thesis by (simp add: x same_trip_def left_unserved_def)
  next
    case False
    with f show ?thesis
      by (cases gone) (simp_all add: x same_trip_def left_unserved_def getdefault_iadd iadd_other)
  qed
qed

lemma unserved_count_Cons:
  "unserved_count (p # q) (x # r) e =
     (if left_unserved p x \<and> (origin p, destination p) = e then 1 else 0) + unserved_count q r e"
  by (simp add: unserved_count_def)

lemma match_queue_unserved:
  assumes "match_queue X n i q (s, a) = Inr ((s', a'), r)"
  shows "time s' = time s \<and> list_all2 same_trip q r
     \<and> (\<forall>e. getdefault (unservedDemand s') (e, time s) = getdefault (unservedDemand s) (e, time s)
            + of_nat (unserved_count q r e))
     \<and> (\<forall>e t. t \<noteq> time s \<longrightarrow> unservedDemand s' (e, t) = unservedDemand s (e, t))"
  using assms
proof (induction q arbitrary: i s a r)
  case Nil
  then show ?case by (simp add: unserved_count_def)
next
  case (Cons pax rest)
  from Cons.prems obtain s1 a1 x rs where
    h: "match_pax X n i pax (s, a) = Inr ((s1, a1), x)"
    and t: "match_queue X n (Suc i) rest (s1, a1) = Inr ((s', a'), rs)"
    and r: "r = x # rs"
    by (auto simp: ebind_eq_Inr prod_eq_iff)
  note a = match_pax_unserved [OF h]
  note b = Cons.IH [OF t]
  show ?case
  proof (intro conjI allI impI)
    fix e
    show "getdefault (unservedDemand s') (e, time s) = getdefault (unservedDemand s) (e, time s)
            + of_nat (unserved_count (pax # rest) r e)"
      using a b by (cases e) (auto simp add: r unserved_count_Cons)
  next
    fix e t assume "t \<noteq> time s"
    then show "unservedDemand s' (e, t) = unservedDemand s (e, t)"
      using a b by (cases e) auto
  next
    show "time s' = time s" using a b by simp
  next
    show "list_all2 same_trip (pax # rest) r" using a b r by simp
  qed
qed


lemma materialise_frame:
  assumes "materialise X pr n j s = Inr s'"
  shows "time s' = time s \<and> queue s' = queue s \<and> unservedDemand s' = unservedDemand s
     \<and> acc s' = acc s"
  using assms by (auto simp: materialise_def Let_def ebind_eq_Inr)

lemma materialise_loop_frame:
  assumes "foldE (materialise X pr n) js s = Inr s'"
  shows "time s' = time s \<and> queue s' = queue s \<and> unservedDemand s' = unservedDemand s
     \<and> acc s' = acc s"
proof (rule foldE_invariant [OF assms])
  show "time s = time s \<and> queue s = queue s \<and> unservedDemand s = unservedDemand s \<and> acc s = acc s"
    by simp
next
  fix x a b
  assume "time a = time s \<and> queue a = queue s \<and> unservedDemand a = unservedDemand s \<and> acc a = acc s"
    and "materialise X pr n x a = Inr b"
  then show "time b = time s \<and> queue b = queue s \<and> unservedDemand b = unservedDemand s \<and> acc b = acc s"
    using materialise_frame by metis
qed

lemma match_region_queue:
  assumes "match_region X g pr n s = Inr s'"
  shows "\<exists>s1 en r. foldE (materialise X pr n) (neighbors g n) s = Inr s1
      \<and> enter_all (passenger s1 (n, time s)) = Inr en
      \<and> list_all2 same_trip (queue s n @ snd en) r
      \<and> queue s' n = map fst (filter (\<lambda>x. \<not> snd x) r)
      \<and> (\<forall>e. getdefault (unservedDemand s') (e, time s) = getdefault (unservedDemand s) (e, time s)
             + of_nat (unserved_count (queue s n @ snd en) r e))
      \<and> (\<forall>e t. t \<noteq> time s \<longrightarrow> unservedDemand s' (e, t) = unservedDemand s (e, t))"
proof -
  from assms obtain a0 s1 en s3 a3 r where
    l1: "foldE (materialise X pr n) (neighbors g n) s = Inr s1"
    and en: "enter_all (passenger s1 (n, time s)) = Inr en"
    and mq: "match_queue X n 0 (queue s1 n @ snd en)
               (s1\<lparr>passenger := (passenger s1)((n, time s) := fst en),
                   queue := (queue s1)(n := queue s1 n @ snd en)\<rparr>, a0) = Inr ((s3, a3), r)"
    and s': "s' = s3\<lparr>queue := (queue s3)(n := map fst (filter (\<lambda>x. \<not> snd x) r)),
                     acc := (acc s3)((n, time s + 1) \<mapsto> a3)\<rparr>"
    by (auto simp: match_region_def Let_def ebind_eq_Inr prod_eq_iff)
  note f = materialise_loop_frame [OF l1]
  note m = match_queue_unserved [OF mq]
  show ?thesis
  proof (intro exI [of _ s1] exI [of _ en] exI [of _ r] conjI allI impI)
    show "foldE (materialise X pr n) (neighbors g n) s = Inr s1" by (rule l1)
    show "enter_all (passenger s1 (n, time s)) = Inr en" by (rule en)
    show "list_all2 same_trip (queue s n @ snd en) r" using m f by simp
    show "queue s' n = map fst (filter (\<lambda>x. \<not> snd x) r)" by (simp add: s')
  next
    fix e
    show "getdefault (unservedDemand s') (e, time s) = getdefault (unservedDemand s) (e, time s)
             + of_nat (unserved_count (queue s n @ snd en) r e)"
      using m f by (cases e) (simp add: s')
  next
    fix e t assume "t \<noteq> time s"
    then show "unservedDemand s' (e, t) = unservedDemand s (e, t)"
      using m f by (cases e) (simp add: s')
  qed
qed





section \<open>The shuffle of the request buffer\<close>

lemma complete_digraph_4: "complete_digraph 4 0 = grid4"
  by (simp add: complete_digraph_def grid4_def upt_rec)

text \<open>
  Claim C6 as stated fails: region 0 has three outgoing edges and one new passenger for
  each. With the three shuffles of the source the passengers queue in the order of the
  destinations 1, 2, 3; one shuffle of the batch of the step gives the order 2, 1, 3.
\<close>

theorem shuffle_once_counterexample:
  "\<exists>s'. match_step_simple ex_X grid4 ex_c6 None = Inr (s', 0, False)
     \<and> map destination (queue s' 0) = [1, 2, 3]
     \<and> map destination (shuffle ex_X (concat (map (\<lambda>j. fst (generate_passenger ex_X (0, j, 0, 1, 10) 0))
                                            (neighbors grid4 0)))) = [2, 1, 3]"
  by (simp add: match_eval ex_c6_def ex_s_def grid4_def)


lemma materialise_buffer:
  assumes "materialise X pr n j s = Inr s'"
  shows "time s' = time s \<and> queue s' = queue s
     \<and> (\<exists>d p a. passenger s' (n, time s)
            = shuffle X (passenger s (n, time s) @ fst (generate_passenger X (n, j, time s, d, p) a)))"
proof -
  from assms obtain dp where
    s': "s' = s\<lparr>arrivals := snd (generate_passenger X (n, j, time s, fst dp, snd dp) (arrivals s)),
                 passenger := (passenger s)((n, time s) :=
                    shuffle X (passenger s (n, time s)
                       @ fst (generate_passenger X (n, j, time s, fst dp, snd dp) (arrivals s))))\<rparr>"
    by (auto simp: materialise_def Let_def ebind_eq_Inr)
  have "passenger s' (n, time s) = shuffle X (passenger s (n, time s)
          @ fst (generate_passenger X (n, j, time s, fst dp, snd dp) (arrivals s)))"
    by (simp add: s')
  then have "\<exists>d p a. passenger s' (n, time s)
            = shuffle X (passenger s (n, time s) @ fst (generate_passenger X (n, j, time s, d, p) a))"
    by blast
  then show ?thesis by (simp add: s')
qed

lemma materialise_loop_buffer:
  assumes "foldE (materialise X pr n) js s = Inr s1"
  shows "\<exists>news. length news = length js
     \<and> (\<forall>k<length js. \<exists>d p a. news ! k = fst (generate_passenger X (n, js ! k, time s, d, p) a))
     \<and> passenger s1 (n, time s) = shuffled_batch X (passenger s (n, time s)) news"
  using assms
proof (induction js arbitrary: s)
  case Nil
  then have "passenger s1 (n, time s) = shuffled_batch X (passenger s (n, time s)) []" by simp
  then show ?case by (intro exI [of _ "[]"]) simp
next
  case (Cons j js)
  from Cons.prems obtain s2 where s2: "materialise X pr n j s = Inr s2"
    and rest: "foldE (materialise X pr n) js s2 = Inr s1"
    by (auto split: sum.splits)
  from materialise_buffer [OF s2] obtain d p a where
    t: "time s2 = time s"
    and b: "passenger s2 (n, time s) = shuffle X (passenger s (n, time s) @ fst (generate_passenger X (n, j, time s, d, p) a))"
    by blast
  from Cons.IH [OF rest] t obtain news where
    n1: "length news = length js"
    and n2: "\<forall>k<length js. \<exists>d p a. news ! k = fst (generate_passenger X (n, js ! k, time s, d, p) a)"
    and n3: "passenger s1 (n, time s) = shuffled_batch X (passenger s2 (n, time s)) news"
    by auto
  let ?new = "fst (generate_passenger X (n, j, time s, d, p) a)"
  have c1: "length (?new # news) = length (j # js)" using n1 by simp
  have c2: "\<forall>k<length (j # js). \<exists>d p a. (?new # news) ! k = fst (generate_passenger X (n, (j # js) ! k, time s, d, p) a)"
  proof (intro allI impI)
    fix k assume "k < length (j # js)"
    show "\<exists>d p a. (?new # news) ! k = fst (generate_passenger X (n, (j # js) ! k, time s, d, p) a)"
    proof (cases k)
      case 0
      then show ?thesis by auto
    next
      case (Suc m)
      with \<open>k < length (j # js)\<close> have "m < length js" by simp
      with n2 Suc show ?thesis by simp
    qed
  qed
  have c3: "passenger s1 (n, time s) = shuffled_batch X (passenger s (n, time s)) (?new # news)"
    using n3 b by simp
  from c1 c2 c3 show ?case by blast
qed

text \<open>
  Claim C6, amended. In the pass of \<^verbatim>\<open>match_step_simple\<close> over region \<open>n\<close> at time \<open>t\<close> the
  shuffle runs once for every outgoing edge of the region, not once: after the passengers
  of each destination are appended, the whole buffer \<^verbatim>\<open>passenger[n][t]\<close> gathered so far is
  shuffled. The shuffle touches the buffer only. The queue that is walked is the old queue
  followed by the passengers of the buffer who entered, and the new queue holds the
  passengers whose position was not recorded, in the same order: the passengers queued
  before keep their order ahead of the new ones.
\<close>

theorem shuffle_per_outgoing_edge:
  assumes "match_region X g pr n s = Inr s'"
  shows "\<exists>news en r. length news = length (neighbors g n)
      \<and> (\<forall>k<length (neighbors g n). \<exists>d p a.
            news ! k = fst (generate_passenger X (n, neighbors g n ! k, time s, d, p) a))
      \<and> enter_all (shuffled_batch X (passenger s (n, time s)) news) = Inr en
      \<and> list_all2 same_trip (queue s n @ snd en) r
      \<and> queue s' n = map fst (filter (\<lambda>x. \<not> snd x) r)"
proof -
  from match_region_queue [OF assms] obtain s1 en r where
    l1: "foldE (materialise X pr n) (neighbors g n) s = Inr s1"
    and en: "enter_all (passenger s1 (n, time s)) = Inr en"
    and q: "list_all2 same_trip (queue s n @ snd en) r"
      "queue s' n = map fst (filter (\<lambda>x. \<not> snd x) r)"
    by blast
  from materialise_loop_buffer [OF l1] obtain news where
    "length news = length (neighbors g n)"
    "\<forall>k<length (neighbors g n). \<exists>d p a.
            news ! k = fst (generate_passenger X (n, neighbors g n ! k, time s, d, p) a)"
    "passenger s1 (n, time s) = shuffled_batch X (passenger s (n, time s)) news"
    by blast
  with en q show ?thesis by (intro exI [of _ news] exI [of _ en] exI [of _ r]) simp
qed


lemma match_region_ex_c6:
  "\<exists>s'. match_region ex_X grid4 None 0 ex_c6 = Inr s' \<and> map destination (queue s' 0) = [1, 2, 3]"
  by (simp add: match_eval ex_c6_def ex_s_def grid4_def)


text \<open>In that pass over region 0 three batches are appended and shuffled.\<close>

theorem shuffle_per_outgoing_edge_witness:
  "\<exists>s' news en r. match_region ex_X grid4 None 0 ex_c6 = Inr s'
      \<and> length news = 3
      \<and> enter_all (shuffled_batch ex_X (passenger ex_c6 (0, time ex_c6)) news) = Inr en
      \<and> list_all2 same_trip (queue ex_c6 0 @ snd en) r
      \<and> queue s' 0 = map fst (filter (\<lambda>x. \<not> snd x) r)
      \<and> map destination (queue s' 0) = [1, 2, 3]"
proof -
  from match_region_ex_c6 obtain s' where mr: "match_region ex_X grid4 None 0 ex_c6 = Inr s'"
    and v: "map destination (queue s' 0) = [1, 2, 3]"
    by (elim exE conjE)
  have n: "length (neighbors grid4 0) = 3"
    by (simp add: neighbors_def out_edges_def grid4_def)
  from shuffle_per_outgoing_edge [OF mr] obtain news en r where
    h1: "length news = length (neighbors grid4 0)"
    and h2: "enter_all (shuffled_batch ex_X (passenger ex_c6 (0, time ex_c6)) news) = Inr en"
    and h3: "list_all2 same_trip (queue ex_c6 0 @ snd en) r"
    and h4: "queue s' 0 = map fst (filter (\<lambda>x. \<not> snd x) r)"
    by (elim exE conjE)
  from h1 n have h0: "length news = 3" by (simp only:)
  show ?thesis
    by (intro exI [of _ s'] exI [of _ news] exI [of _ en] exI [of _ r] conjI)
      (rule mr h0 h2 h3 h4 v)+
qed

section \<open>\<^verbatim>\<open>reset\<close>\<close>

lemma reset_trips_frame:
  "mode (fold reset_trip trips s) = mode s \<and> time (fold reset_trip trips s) = time s
   \<and> passenger (fold reset_trip trips s) = passenger s \<and> queue (fold reset_trip trips s) = queue s
   \<and> depDemand (fold reset_trip trips s) = depDemand s \<and> arrDemand (fold reset_trip trips s) = arrDemand s
   \<and> region (fold reset_trip trips s) = region s \<and> arrivals (fold reset_trip trips s) = arrivals s
   \<and> acc (fold reset_trip trips s) = acc s \<and> dacc (fold reset_trip trips s) = dacc s
   \<and> rebFlow (fold reset_trip trips s) = rebFlow s \<and> paxFlow (fold reset_trip trips s) = paxFlow s
   \<and> edges (fold reset_trip trips s) = edges s
   \<and> servedDemand (fold reset_trip trips s) = servedDemand s
   \<and> unservedDemand (fold reset_trip trips s) = unservedDemand s
   \<and> info (fold reset_trip trips s) = info s \<and> reward (fold reset_trip trips s) = reward s"
proof (induction trips arbitrary: s)
  case Nil
  show ?case by simp
next
  case (Cons a trips)
  obtain i j t d p where a: "a = (i, j, t, d, p)" by (metis prod_cases5)
  show ?case using Cons [of "reset_trip a s"] by (simp add: a reset_trip_def)
qed

lemma reset_trips_demand:
  "demand (fold reset_trip trips s) = demand s ++ trip_demand trips
   \<and> price (fold reset_trip trips s) = price s ++ trip_price trips"
proof (induction trips arbitrary: s)
  case Nil
  show ?case by (simp add: trip_demand_def trip_price_def)
next
  case (Cons a trips)
  obtain i j t d p where a: "a = (i, j, t, d, p)" by (metis prod_cases5)
  have d: "trip_demand (a # trips) = [((i, j), t) \<mapsto> d] ++ trip_demand trips"
    by (simp add: trip_demand_def a trip_pair_def)
  have p: "trip_price (a # trips) = [((i, j), t) \<mapsto> p] ++ trip_price trips"
    by (simp add: trip_price_def a trip_pair_def)
  have d0: "demand (reset_trip a s) = demand s ++ [((i, j), t) \<mapsto> d]"
    and p0: "price (reset_trip a s) = price s ++ [((i, j), t) \<mapsto> p]"
    by (simp_all add: a reset_trip_def)
  show ?case using Cons [of "reset_trip a s"] by (simp add: d p d0 p0 del: map_add_upd)
qed

lemma seed_loop:
  assumes "foldE (seed_acc g) ns s = Inr s'"
  shows "s' = s\<lparr>acc := (\<lambda>k. if snd k = 0 \<and> fst k \<in> set ns then accInit g (fst k) else acc s k)\<rparr>
     \<and> (\<forall>n\<in>set ns. accInit g n \<noteq> None)"
  using assms
proof (induction ns arbitrary: s)
  case Nil
  then show ?case by simp
next
  case (Cons n ns)
  from Cons.prems obtain s1 where s1: "seed_acc g n s = Inr s1"
    and rest1: "foldE (seed_acc g) ns s1 = Inr s'"
    by (auto split: sum.splits)
  from s1 obtain a where a: "accInit g n = Some a" and s1': "s1 = s\<lparr>acc := (acc s)((n, 0) \<mapsto> a)\<rparr>"
    by (auto simp: seed_acc_def ebind_eq_Inr getitem_eq_Inr)
  from rest1 s1' have rest: "foldE (seed_acc g) ns (s\<lparr>acc := (acc s)((n, 0) \<mapsto> a)\<rparr>) = Inr s'"
    by simp
  from Cons.IH [OF rest] have
    s': "s' = s\<lparr>acc := (\<lambda>k. if snd k = 0 \<and> fst k \<in> set ns then accInit g (fst k)
                            else ((acc s)((n, 0) \<mapsto> a)) k)\<rparr>"
    and nn: "\<forall>n\<in>set ns. accInit g n \<noteq> None" by (simp_all cong: if_cong)
  have "(\<lambda>k. if snd k = 0 \<and> fst k \<in> set ns then accInit g (fst k) else ((acc s)((n, 0) \<mapsto> a)) k)
      = (\<lambda>k. if snd k = 0 \<and> fst k \<in> set (n # ns) then accInit g (fst k) else acc s k)"
    using a by (auto simp: fun_eq_iff)
  with s' nn a show ?case by simp
qed


text \<open>
  Claim C8, amended. After \<^verbatim>\<open>reset()\<close> the inventory holds exactly the configured
  \<^verbatim>\<open>accInit\<close> of every region at time 0; the arrival ledger, the two flow ledgers, the
  request buffers and the queues are empty; demand and price are the tables of the freshly
  sampled trips; the served and unserved ledgers are empty for every pair of the new
  demand; the counter of arrivals, the time and the reward are 0; the result holds the
  initial observation. The diagnostics \<^verbatim>\<open>info\<close> and the departure and arrival demand
  ledgers are what they were before the call.
\<close>

theorem reset_ledgers:
  assumes "reset X g s trips = Inr s'"
  shows "acc s' = (\<lambda>k. if snd k = 0 \<and> fst k \<in> set (nodes g) then accInit g (fst k) else None)
    \<and> (\<forall>n\<in>set (nodes g). accInit g n \<noteq> None)
    \<and> dacc s' = Map.empty \<and> rebFlow s' = Map.empty \<and> paxFlow s' = Map.empty
    \<and> passenger s' = (\<lambda>_. []) \<and> queue s' = (\<lambda>_. [])
    \<and> demand s' = trip_demand trips \<and> price s' = trip_price trips
    \<and> servedDemand s' = (\<lambda>k. if fst k \<in> set (map trip_pair trips) then None else servedDemand s k)
    \<and> unservedDemand s' = (\<lambda>k. if fst k \<in> set (map trip_pair trips) then None else unservedDemand s k)
    \<and> arrivals s' = 0 \<and> time s' = 0 \<and> reward s' = 0 \<and> edges s' = edge_list X g
    \<and> info s' = info s \<and> depDemand s' = depDemand s \<and> arrDemand s' = arrDemand s"
proof -
  let ?s0 = "s\<lparr>acc := Map.empty, dacc := Map.empty, rebFlow := Map.empty, paxFlow := Map.empty,
                 passenger := (\<lambda>_. []), queue := (\<lambda>_. []),
                 edges := edge_list X g,
                 demand := Map.empty, price := Map.empty, arrivals := 0,
                 regionDemand := Map.empty\<rparr>"
  let ?s2 = "(fold reset_trip trips ?s0)\<lparr>time := 0\<rparr>"
  from assms obtain s3 where l: "foldE (seed_acc g) (nodes g) ?s2 = Inr s3"
    and s': "s' = s3\<lparr>servedDemand := (\<lambda>k. if fst k \<in> set (map trip_pair trips) then None
                                        else servedDemand s3 k),
                unservedDemand := (\<lambda>k. if fst k \<in> set (map trip_pair trips) then None
                                          else unservedDemand s3 k),
                reward := 0\<rparr>"
    by (auto simp: reset_def Let_def ebind_eq_Inr)
  from seed_loop [OF l] have
    s3: "s3 = ?s2\<lparr>acc := (\<lambda>k. if snd k = 0 \<and> fst k \<in> set (nodes g) then accInit g (fst k) else acc ?s2 k)\<rparr>"
    and nn: "\<forall>n\<in>set (nodes g). accInit g n \<noteq> None"
    by blast+
  note f = reset_trips_frame [of trips ?s0]
  note d = reset_trips_demand [of trips ?s0]
  have a: "acc s' = (\<lambda>k. if snd k = 0 \<and> fst k \<in> set (nodes g) then accInit g (fst k) else None)"
    unfolding s' by (subst s3) (simp add: f cong: if_cong)
  have rest: "dacc s' = Map.empty \<and> rebFlow s' = Map.empty \<and> paxFlow s' = Map.empty
    \<and> passenger s' = (\<lambda>_. []) \<and> queue s' = (\<lambda>_. [])
    \<and> demand s' = trip_demand trips \<and> price s' = trip_price trips
    \<and> servedDemand s' = (\<lambda>k. if fst k \<in> set (map trip_pair trips) then None else servedDemand s k)
    \<and> unservedDemand s' = (\<lambda>k. if fst k \<in> set (map trip_pair trips) then None else unservedDemand s k)
    \<and> arrivals s' = 0 \<and> time s' = 0 \<and> reward s' = 0 \<and> edges s' = edge_list X g
    \<and> info s' = info s \<and> depDemand s' = depDemand s \<and> arrDemand s' = arrDemand s"
    unfolding s' by (subst s3)+ (simp add: f d cong: if_cong)
  from a nn rest show ?thesis by blast
qed


lemmas reset_eval = reset_def reset_trip_def seed_acc_def edge_list_def out_edges_def
  trip_pair_def getitem_def ex_X_def Let_def

text \<open>
  Claim C8 as stated fails: after an episode with revenue 7 and a departure demand of 3
  from region 0 at time 0, \<^verbatim>\<open>reset()\<close> samples a demand of 2 for that region and time
  and leaves the revenue at 7 and the departure demand at 3.
\<close>

theorem reset_keeps_info_counterexample:
  "\<exists>s'. reset ex_X grid2 ex_c8 ex_trips = Inr s'
     \<and> revenue (info ex_c8) = 7 \<and> revenue (info s') = 7
     \<and> demand s' ((0, 1), 0) = Some 2 \<and> demand s' ((0, 0), 0) = None
     \<and> depDemand s' (0, 0) = Some 3"
  by (simp add: reset_eval ex_c8_def ex_trips_def ex_s_def grid2_def info0_def)

text \<open>The same call: five vehicles in each region at time 0, nothing left of time 3.\<close>

theorem reset_ledgers_witness:
  "\<exists>s'. reset ex_X grid2 ex_c8 ex_trips = Inr s'
     \<and> acc s' (0, 0) = Some 5 \<and> acc s' (1, 0) = Some 5 \<and> acc s' (0, 3) = None
     \<and> time s' = 0 \<and> queue s' 1 = [] \<and> demand s' ((0, 1), 0) = Some 2
     \<and> info s' = info ex_c8"
proof -
  have "\<exists>s'. reset ex_X grid2 ex_c8 ex_trips = Inr s'"
    by (simp add: reset_eval ex_c8_def ex_trips_def ex_s_def grid2_def info0_def)
  then obtain s' where r: "reset ex_X grid2 ex_c8 ex_trips = Inr s'" ..
  note th = reset_ledgers [OF r]
  from th have a: "acc s' = (\<lambda>k. if snd k = 0 \<and> fst k \<in> set (nodes grid2) then accInit grid2 (fst k) else None)"
    by (elim conjE)
  from th have q: "queue s' = (\<lambda>_. [])" by (elim conjE)
  from th have d: "demand s' = trip_demand ex_trips" by (elim conjE)
  from th have t: "time s' = 0" by (elim conjE)
  from th have i: "info s' = info ex_c8" by (elim conjE)
  have a0: "acc s' (0, 0) = Some 5" "acc s' (1, 0) = Some 5" "acc s' (0, 3) = None"
    by (simp_all add: a grid2_def)
  have q1: "queue s' 1 = []" by (simp add: q)
  have d1: "demand s' ((0, 1), 0) = Some 2"
    by (simp add: d trip_demand_def ex_trips_def trip_pair_def)
  show ?thesis
    by (intro exI [of _ s'] conjI) (rule r a0 t q1 d1 i)+
qed

section \<open>The caller's scenario and the fleet\<close>

lemmas init_eval = AMoD_init_def deepcopy_def init_trip_def seed_acc_def refresh_edge_def
  edge_list_def out_edges_def getitem_def iadd_def getdefault_def ex_X_def Let_def

text \<open>
  Claim C7 at a concrete scenario. The constructor copies the scenario (the copy has a
  graph of its own, at another address) and keeps the graph of the argument in
  \<^verbatim>\<open>self.G\<close>; the loop that sets the travel time of every edge writes to that graph, so
  the edge \<open>(0, 1)\<close> of the caller's graph, which had no attribute \<^verbatim>\<open>time\<close>, has one
  after the call.
\<close>

theorem scenario_graph_mutated:
  "\<exists>st' ob g'. AMoD_init ex_X ex_store ex_scenario 0 (1 / 5) = Inr (st', ob)
     \<and> self_G ob = sc_G ex_scenario \<and> sc_G (self_scenario ob) \<noteq> sc_G ex_scenario
     \<and> objs ex_store (sc_G ex_scenario) = Some grid2 \<and> etime grid2 (0, 1) = None
     \<and> objs st' (sc_G ex_scenario) = Some g' \<and> etime g' (0, 1) = Some 1"
  by (simp add: init_eval ex_store_def ex_scenario_def ex_trips_def grid2_def info0_def)

text \<open>
  Claim C1 at a concrete run of two steps on \<open>grid2\<close> with ten vehicles. At time 0 three
  vehicles leave region 0 for region 1 with travel time 2 and are recorded for time 2.
  At time 1 the travel time is 1, and \<^verbatim>\<open>reb_step\<close> with the action zero writes the flow 0
  into the same entry of the ledger: the three vehicles are gone, and the fleet is seven.
\<close>

theorem fleet_not_conserved:
  "\<exists>s1 g2 s2 s3 g4 s4.
       match_step_simple ex_X grid2 ex_c1 None = Inr (s1, 0, False)
     \<and> reb_step grid2 s1 [0, 3, 0, 0] = Inr (g2, s2, - (6 / 5), False)
     \<and> match_step_simple ex_X g2 s2 None = Inr (s3, 0, False)
     \<and> reb_step g2 s3 [0, 0, 0, 0] = Inr (g4, s4, 0, False)
     \<and> rebFlow s2 ((0, 1), 2) = Some 3 \<and> rebFlow s4 ((0, 1), 2) = Some 0
     \<and> acc s2 (0, 1) = Some 2 \<and> acc s2 (1, 1) = Some 5
     \<and> acc s4 (0, 2) = Some 2 \<and> acc s4 (1, 2) = Some 5
     \<and> fleet ex_c1 0 10 = 10 \<and> fleet s2 1 10 = 10 \<and> fleet s4 2 10 = 7"
  by (simp add: match_eval reb_step_def reb_edge_def arrive_edge_def arrive_rebFlow_def
      arrive_paxFlow_def refresh_edge_def upt_rec fleet_def due_at_def ex_c1_def ex_s_def
      grid2_def upto.simps)

end
